theory Spec2Isabelle
  imports Complex_Main "HOL-Library.AList"
begin

section \<open>Strings\<close>

text \<open>
  A Python \<open>str\<close> is modelled as a \<open>string\<close>; one \<open>char\<close> stands for one character of the
  Python string (the code points below 256), so that \<open>length\<close> and \<open>take\<close> count what
  \<open>len\<close> and slicing count. The predicates below are the character classes of the regular
  expressions and of \<open>str.strip\<close>, \<open>str.lower\<close> on that range.
\<close>

definition code :: "char \<Rightarrow> nat" where
  "code c = of_char c"

definition is_digit :: "char \<Rightarrow> bool" where
  "is_digit c = (48 \<le> code c \<and> code c \<le> 57)"

definition is_lower_az :: "char \<Rightarrow> bool" where
  "is_lower_az c = (97 \<le> code c \<and> code c \<le> 122)"

definition is_upper_az :: "char \<Rightarrow> bool" where
  "is_upper_az c = (65 \<le> code c \<and> code c \<le> 90)"

definition is_space :: "char \<Rightarrow> bool" where
  \<comment> \<open>\<open>str.isspace\<close>: what \<open>str.strip()\<close> removes\<close>
  "is_space c = ((9 \<le> code c \<and> code c \<le> 13) \<or> (28 \<le> code c \<and> code c \<le> 32)
                  \<or> code c = 133 \<or> code c = 160)"

definition lower_char :: "char \<Rightarrow> char" where
  "lower_char c =
     (if is_upper_az c \<or> (192 \<le> code c \<and> code c \<le> 222 \<and> code c \<noteq> 215)
      then char_of (code c + 32) else c)"

definition lower :: "string \<Rightarrow> string" where
  \<comment> \<open>\<open>str.lower\<close>\<close>
  "lower s = map lower_char s"

definition strip_chars :: "(char \<Rightarrow> bool) \<Rightarrow> string \<Rightarrow> string" where
  \<comment> \<open>\<open>str.strip\<close>: drop the characters of the class at both ends\<close>
  "strip_chars p s = rev (dropWhile p (rev (dropWhile p s)))"

definition strip :: "string \<Rightarrow> string" where
  "strip s = strip_chars is_space s"

function sub_runs :: "(char \<Rightarrow> bool) \<Rightarrow> string \<Rightarrow> string \<Rightarrow> string" where
  \<comment> \<open>\<open>re.sub('[class]+', r, s)\<close>: every maximal run of characters of the class becomes \<open>r\<close>\<close>
  "sub_runs p r [] = []"
| "sub_runs p r (c # cs) =
     (if p c then r @ sub_runs p r (dropWhile p cs) else c # sub_runs p r cs)"
  by pat_completeness auto
termination
  by (relation "measure (\<lambda>(p, r, s). length s)")
     (auto simp: less_Suc_eq_le length_dropWhile_le)

definition sub_each :: "(char \<Rightarrow> bool) \<Rightarrow> char \<Rightarrow> string \<Rightarrow> string" where
  \<comment> \<open>\<open>re.sub('[class]', r, s)\<close>: every character of the class becomes \<open>r\<close>\<close>
  "sub_each p r s = map (\<lambda>c. if p c then r else c) s"

definition join :: "string \<Rightarrow> string list \<Rightarrow> string" where
  \<comment> \<open>\<open>sep.join(parts)\<close>\<close>
  "join sep parts = (case parts of [] \<Rightarrow> [] | x # xs \<Rightarrow> x @ concat (map (\<lambda>y. sep @ y) xs))"

definition newline :: string where
  "newline = [char_of (10 :: nat)]"

fun digits :: "nat \<Rightarrow> nat \<Rightarrow> string" where
  \<comment> \<open>the decimal digits of a number, with fuel for the number of digits\<close>
  "digits 0 n = []"
| "digits (Suc k) n =
     (if n < 10 then [char_of (48 + n)] else digits k (n div 10) @ [char_of (48 + n mod 10)])"

definition str_nat :: "nat \<Rightarrow> string" where
  \<comment> \<open>\<open>str(n)\<close> for a non-negative integer\<close>
  "str_nat n = digits (Suc n) n"

definition str_opt :: "string option \<Rightarrow> string" where
  \<comment> \<open>an optional string inside an f-string: a missing value prints as \<open>None\<close>\<close>
  "str_opt v = (case v of None \<Rightarrow> ''None'' | Some s \<Rightarrow> s)"

definition get_or :: "'a option \<Rightarrow> 'a \<Rightarrow> 'a" where
  \<comment> \<open>\<open>d.get(k, default)\<close>\<close>
  "get_or v d = (case v of None \<Rightarrow> d | Some x \<Rightarrow> x)"

definition truthy :: "string option \<Rightarrow> bool" where
  \<comment> \<open>the truth value of an optional string: neither missing nor empty\<close>
  "truthy v = (case v of None \<Rightarrow> False | Some s \<Rightarrow> s \<noteq> [])"

section \<open>export\_annotations.py: slugs, tags and file names\<close>

definition slugify :: "string \<Rightarrow> string" where
  \<comment> \<open>\<open>re.sub(r'[^a-z0-9]+', '-', value.lower()).strip('-')\<close>\<close>
  "slugify v =
     strip_chars (\<lambda>c. c = CHR ''-'')
       (sub_runs (\<lambda>c. \<not> (is_lower_az c \<or> is_digit c)) ''-'' (lower v))"

record creator =
  creatorType :: "string option"
  firstName :: "string option"
  lastName :: "string option"

fun author_tags :: "creator list \<Rightarrow> string list" where
  \<comment> \<open>the loop over \<open>creators\<close> that fills \<open>author_tags\<close>\<close>
  "author_tags [] = []"
| "author_tags (c # cs) =
     (if creatorType c = Some ''author'' \<or> creatorType c = Some ''editor'' then
        (let first = lower (strip (get_or (firstName c) ''''));
             last = lower (strip (get_or (lastName c) ''''))
         in if last \<noteq> [] then (''#'' @ slugify (first @ ''-'' @ last)) # author_tags cs
            else author_tags cs)
      else author_tags cs)"

definition illegal_char :: "char \<Rightarrow> bool" where
  \<comment> \<open>the class \<open>[\\/*?:"<>|]\<close>\<close>
  "illegal_char c = (c \<in> set [CHR 0x5C, CHR ''/'', CHR ''*'', CHR ''?'', CHR '':'',
                                CHR 0x22, CHR ''<'', CHR ''>'', CHR ''|''])"

definition safe_title :: "string \<Rightarrow> string" where
  \<comment> \<open>\<open>re.sub(r'[\\/*?:"<>|]', "_", title)[:100]\<close>\<close>
  "safe_title t = take 100 (sub_each illegal_char CHR ''_'' t)"

definition md_filename :: "string \<Rightarrow> string \<Rightarrow> string" where
  \<comment> \<open>\<open>f"{safe_title or 'untitled'}_{item['key']}.md"\<close>\<close>
  "md_filename t k =
     (if safe_title t \<noteq> [] then safe_title t else ''untitled'') @ ''_'' @ k @ ''.md''"

section \<open>The remote library and the outside world\<close>

text \<open>
  The resources of the remote library are dictionaries decoded from JSON. The model gives each
  the fields the code reads, every one optional as in \<open>dict.get\<close>; a missing field is \<open>None\<close>.
  An entry of \<open>links\<close> is either a dictionary (with or without an \<open>href\<close>) or some other
  value.
\<close>

datatype link = LinkObj "string option" | LinkOther

record zdata =
  title :: "string option"
  itemType :: "string option"
  date :: "string option"
  filename :: "string option"
  creators :: "creator list"
  annotationType :: "string option"
  annotationPageLabel :: "string option"
  annotationText :: "string option"
  annotationComment :: "string option"
  annotationColor :: "string option"

record zitem =
  key :: "string option"
  data :: "zdata option"
  links :: "(string \<times> link) list option"

datatype pval = PInt int | PStr string

record request =
  url :: string
  params :: "(string \<times> pval) list"
  headers :: "(string \<times> string) list"
  stream :: bool

record response =
  status_code :: nat
  json_body :: "zitem list option"   \<comment> \<open>\<open>None\<close>: the body is not JSON and \<open>resp.json()\<close> raises\<close>
  chunks :: "string list"            \<comment> \<open>what \<open>iter_content\<close> yields\<close>

datatype reply = NoResponse | Response response

datatype exn =
    RuntimeError          \<comment> \<open>raised by \<open>_get\<close> on HTTP 429\<close>
  | HTTPError nat         \<comment> \<open>raised by \<open>raise_for_status\<close>, with the status\<close>
  | ConnectionError
  | JSONDecodeError
  | KeyError string
  | TypeError
  | ValueError
  | OSError
  | OverflowError         \<comment> \<open>raised by \<open>time.sleep\<close> on a length that is too large\<close>
  | CalledProcessError nat   \<comment> \<open>\<open>subprocess.run(..., check=True)\<close> on a non-zero exit\<close>



datatype proc_result = Exited nat | NotStarted

record datetime =
  year :: nat
  month :: nat
  day :: nat
  hour :: nat
  minute :: nat
  second :: nat
  microsecond :: nat

text \<open>
  A Python \<open>float\<close>: a finite double, taken as the real number it stands for, one of the two
  infinities, or not-a-number. The option \<open>--sleep\<close> is parsed by \<open>float\<close>, which accepts
  \<open>inf\<close>, \<open>-inf\<close> and \<open>nan\<close> too.
\<close>

datatype pyfloat = Finite real | PosInf | NegInf | NaN

datatype content =
    Text string                 \<comment> \<open>a text file\<close>
  | JsonItem zitem              \<comment> \<open>\<open>json.dumps(item, indent=2)\<close>\<close>
  | JsonItems "zitem list"      \<comment> \<open>\<open>json.dumps(items, indent=2)\<close>\<close>
  | JsonMeta string nat         \<comment> \<open>the manifest: \<open>fetched_at\<close> and \<open>item_count\<close>\<close>
  | Bytes string                \<comment> \<open>a downloaded file\<close>

text \<open>The lines the programs print, one constructor for each \<open>print\<close> of the source.\<close>

datatype msg =
    Fetched nat int
  | Downloading string
  | FailedDownload string exn
  | StartingBackup
  | BackingUp nat nat "string option" string
  | SavedAs string
  | SkippedDownloading string
  | SavedFile string
  | SavedAnnotations nat
  | FailedChildren string exn
  | BackupComplete
  | InitializingRepo
  | FailedInit exn
  | Committed
  | AddCommitFailed exn
  | MissingEnvironment
  | ErrorDuringBackup exn
  | Wrote string
  | Found nat
  | NoAnnotationsFound "string option"

datatype event =
    Request request reply
  | Sleep real
  | Print msg
  | Mkdir string
  | Write string content
  | Run "string list" proc_result

text \<open>
  The world a run acts on: the events so far, in order, and the files on disk. What lies
  outside the program (the server, the \<open>git\<close> executable, the clock) answers as a function of
  the events so far, so a server may answer the same request differently at different times.
  Writes to disk always succeed in the model.
\<close>

record world =
  trace :: "event list"
  files :: "string \<rightharpoonup> content"

record sys =
  http :: "event list \<Rightarrow> request \<Rightarrow> reply"
  subprocess :: "event list \<Rightarrow> string list \<Rightarrow> proc_result"
  utcnow :: "event list \<Rightarrow> datetime"

type_synonym 'a result = "(exn + 'a) \<times> world"

definition emit :: "event \<Rightarrow> world \<Rightarrow> world" where
  "emit e w = w\<lparr>trace := trace w @ [e]\<rparr>"

definition print :: "msg \<Rightarrow> world \<Rightarrow> world" where
  "print m w = emit (Print m) w"

definition session_get :: "sys \<Rightarrow> request \<Rightarrow> world \<Rightarrow> response result" where
  \<comment> \<open>\<open>session.get(url, params=..., stream=...)\<close>: one request, one reply or no reply\<close>
  "session_get s rq w =
     (let rp = http s (trace w) rq; w' = emit (Request rq rp) w
      in case rp of NoResponse \<Rightarrow> (Inl ConnectionError, w') | Response r \<Rightarrow> (Inr r, w'))"

definition raise_for_status :: "response \<Rightarrow> exn + unit" where
  "raise_for_status r =
     (if 400 \<le> status_code r \<and> status_code r < 600 then Inl (HTTPError (status_code r))
      else Inr ())"

definition resp_json :: "response \<Rightarrow> exn + zitem list" where
  "resp_json r = (case json_body r of None \<Rightarrow> Inl JSONDecodeError | Some v \<Rightarrow> Inr v)"

definition max_sleep :: real where
  \<comment> \<open>CPython keeps a length of time as a signed 64-bit count of nanoseconds: the lengths
      from \<open>2 ^ 63\<close> nanoseconds on, about 9.2e9 seconds, do not fit\<close>
  "max_sleep = 2 ^ 63 / 10 ^ 9"

definition time_sleep :: "pyfloat \<Rightarrow> world \<Rightarrow> unit result" where
  \<comment> \<open>\<open>time.sleep\<close> converts its argument to nanoseconds first: \<open>ValueError\<close> for
      not-a-number, \<open>OverflowError\<close> for an infinity and for a length that does not fit; then
      \<open>ValueError\<close> for a negative length. The product by \<open>10 ^ 9\<close> is taken exactly, not
      rounded as a double.\<close>
  "time_sleep d w =
     (case d of
        NaN \<Rightarrow> (Inl ValueError, w)
      | PosInf \<Rightarrow> (Inl OverflowError, w)
      | NegInf \<Rightarrow> (Inl OverflowError, w)
      | Finite x \<Rightarrow>
          if x < - max_sleep \<or> max_sleep \<le> x then (Inl OverflowError, w)
          else if x < 0 then (Inl ValueError, w)
          else (Inr (), emit (Sleep x) w))"

definition write_file :: "string \<Rightarrow> content \<Rightarrow> world \<Rightarrow> world" where
  "write_file p c w = emit (Write p c) (w\<lparr>files := (files w)(p \<mapsto> c)\<rparr>)"

definition ensure_dir :: "string \<Rightarrow> world \<Rightarrow> world" where
  "ensure_dir p w = emit (Mkdir p) w"

definition path_join :: "string \<Rightarrow> string \<Rightarrow> string" where
  \<comment> \<open>\<open>Path(p) / n\<close>, without the normalisation \<open>pathlib\<close> applies\<close>
  "path_join p n = (if n = [] then p else if take 1 n = ''/'' then n else p @ ''/'' @ n)"

definition path_name :: "string \<Rightarrow> string" where
  \<comment> \<open>\<open>Path(p).name\<close>: the last component\<close>
  "path_name p = rev (takeWhile (\<lambda>c. c \<noteq> CHR ''/'') (rev p))"

definition env_get :: "(string \<rightharpoonup> string) \<Rightarrow> string \<Rightarrow> string option \<Rightarrow> string option" where
  \<comment> \<open>\<open>os.environ.get(name, default)\<close>\<close>
  "env_get env name dflt = (case env name of None \<Rightarrow> dflt | Some v \<Rightarrow> Some v)"

section \<open>zotero\_annotate.py: the client of the Markdown export\<close>

record zotero_client =
  api_key :: string
  library_id :: string
  library_type :: string
  base_url :: string

definition make_base_url :: "string \<Rightarrow> string \<Rightarrow> string" where
  "make_base_url ltype lid = ''https://api.zotero.org/'' @ ltype @ ''/'' @ lid"

definition ZoteroClient :: "(string \<rightharpoonup> string) \<Rightarrow> exn + zotero_client" where
  \<comment> \<open>\<open>ZoteroClient()\<close>: every setting comes from the environment\<close>
  "ZoteroClient env =
     (case (env ''ZOTERO_API_KEY'', env ''ZOTERO_LIBRARY_ID'') of
        (Some k, Some l) \<Rightarrow>
          if k = [] then Inl ValueError
          else if l = [] then Inl ValueError
          else (let t = get_or (env_get env ''ZOTERO_LIBRARY_TYPE'' (Some ''users'')) ''users''
                in Inr \<lparr>api_key = k, library_id = l, library_type = t,
                        base_url = make_base_url t l\<rparr>)
      | _ \<Rightarrow> Inl ValueError)"

definition client_request :: "zotero_client \<Rightarrow> string \<Rightarrow> (string \<times> pval) list \<Rightarrow> request" where
  "client_request c u ps =
     \<lparr>url = u, params = ps, headers = [(''Zotero-API-Key'', api_key c)], stream = False\<rparr>"

definition query_items :: "sys \<Rightarrow> zotero_client \<Rightarrow> bool \<Rightarrow> int \<Rightarrow> world \<Rightarrow> zitem list result" where
  "query_items s c top_only limit w =
     (let u = base_url c @ ''/items'' @ (if top_only then ''/top'' else [])
      in case session_get s (client_request c u [(''limit'', PInt limit)]) w of
           (Inl e, w1) \<Rightarrow> (Inl e, w1)
         | (Inr resp, w1) \<Rightarrow>
             (case raise_for_status resp of
                Inl e \<Rightarrow> (Inl e, w1)
              | Inr _ \<Rightarrow> (resp_json resp, w1)))"

fun filter_type :: "string \<Rightarrow> zitem list \<Rightarrow> exn + zitem list" where
  \<comment> \<open>\<open>[i for i in items if i["data"].get("itemType") == t]\<close>\<close>
  "filter_type t [] = Inr []"
| "filter_type t (i # rest) =
     (case data i of
        None \<Rightarrow> Inl (KeyError ''data'')
      | Some d \<Rightarrow>
          (case filter_type t rest of
             Inl e \<Rightarrow> Inl e
           | Inr r \<Rightarrow> Inr (if itemType d = Some t then i # r else r)))"

definition query_children :: "sys \<Rightarrow> zotero_client \<Rightarrow> string \<Rightarrow> string \<Rightarrow> world \<Rightarrow> zitem list result" where
  \<comment> \<open>the common body of \<open>query_attachments\<close> and \<open>query_annotations\<close>\<close>
  "query_children s c t item_key w =
     (let u = base_url c @ ''/items/'' @ item_key @ ''/children''
      in case session_get s (client_request c u []) w of
           (Inl e, w1) \<Rightarrow> (Inl e, w1)
         | (Inr resp, w1) \<Rightarrow>
             (case raise_for_status resp of
                Inl e \<Rightarrow> (Inl e, w1)
              | Inr _ \<Rightarrow>
                  (case resp_json resp of
                     Inl e \<Rightarrow> (Inl e, w1)
                   | Inr js \<Rightarrow> (filter_type t js, w1))))"

definition query_attachments :: "sys \<Rightarrow> zotero_client \<Rightarrow> string \<Rightarrow> world \<Rightarrow> zitem list result" where
  "query_attachments s c item_key w = query_children s c ''attachment'' item_key w"

definition query_annotations :: "sys \<Rightarrow> zotero_client \<Rightarrow> string \<Rightarrow> world \<Rightarrow> zitem list result" where
  "query_annotations s c attachment_key w = query_children s c ''annotation'' attachment_key w"

section \<open>export\_annotations.py: rendering and the export command\<close>

type_synonym entries = "(string \<times> zitem \<times> zitem list) list"

definition creator_name :: "creator \<Rightarrow> string" where
  \<comment> \<open>\<open>f"{c.get('firstName', '')} {c.get('lastName', '')}".strip()\<close>\<close>
  "creator_name c = strip (get_or (firstName c) [] @ '' '' @ get_or (lastName c) [])"

fun annotation_lines :: "nat \<Rightarrow> zitem list \<Rightarrow> exn + string list" where
  "annotation_lines n [] = Inr []"
| "annotation_lines n (ann # anns) =
     (case data ann of
        None \<Rightarrow> Inl (KeyError ''data'')
      | Some ann_data \<Rightarrow>
          (let ann_type = get_or (annotationType ann_data) [];
               page = get_or (annotationPageLabel ann_data) [];
               text = get_or (annotationText ann_data) [];
               comment = get_or (annotationComment ann_data) [];
               color = get_or (annotationColor ann_data) [];
               ls = [[], ''### Annotation '' @ str_nat n,
                     ''**p'' @ page @ '', type: '' @ ann_type @ ''**'', text]
                    @ (if comment \<noteq> [] then [''  > Comment: '' @ comment] else [])
                    @ (if color \<noteq> [] then [''  > _(Color: '' @ color @ '')_''] else [])
                    @ [[]]
           in case annotation_lines (Suc n) anns of
                Inl e \<Rightarrow> Inl e
              | Inr tl_lines \<Rightarrow> Inr (ls @ tl_lines)))"

fun attachment_lines :: "entries \<Rightarrow> exn + string list" where
  "attachment_lines [] = Inr []"
| "attachment_lines ((k, attachment, annotations) # es) =
     (case data attachment of
        None \<Rightarrow> Inl (KeyError ''data'')
      | Some d \<Rightarrow>
          (case annotation_lines 0 annotations of
             Inl e \<Rightarrow> Inl e
           | Inr ls \<Rightarrow>
               (case attachment_lines es of
                  Inl e \<Rightarrow> Inl e
                | Inr tl_lines \<Rightarrow>
                    Inr ([''## '' @ get_or (title d) ''Attachment''] @ ls @ [[]] @ tl_lines))))"

definition write_markdown_for_item :: "zitem \<Rightarrow> entries \<Rightarrow> string \<Rightarrow> world \<Rightarrow> unit result" where
  "write_markdown_for_item item annotations_by_attachment output_dir w =
     (case data item of
        None \<Rightarrow> (Inl (KeyError ''data''), w)
      | Some d \<Rightarrow>
          (let ttl = get_or (title d) ''Untitled'';
               item_type = get_or (itemType d) ''document'';
               yr = take 4 (get_or (date d) []);
               doc_tag = ''#'' @ slugify item_type
           in case key item of
                None \<Rightarrow> (Inl (KeyError ''key''), w)
              | Some k \<Rightarrow>
                  (let filepath = path_join output_dir (md_filename ttl k);
                       ls = [''# '' @ ttl]
                            @ (if yr \<noteq> [] then [''**Year:** '' @ yr] else [])
                            @ [[], ''**Item Type:** '' @ item_type]
                            @ (if creators d \<noteq> []
                               then [''**Authors:** '' @ join '', '' (map creator_name (creators d))]
                               else [])
                            @ [[], ''**Tags:** '' @ join '' '' (author_tags (creators d) @ [doc_tag]),
                               newline @ ''---'' @ newline]
                   in case attachment_lines annotations_by_attachment of
                        Inl e \<Rightarrow> (Inl e, w)
                      | Inr tl_lines \<Rightarrow>
                          (Inr (), print (Wrote (path_name filepath))
                                     (write_file filepath (Text (join newline (ls @ tl_lines))) w)))))"

fun collect_annotations :: "sys \<Rightarrow> zotero_client \<Rightarrow> zitem list \<Rightarrow> entries \<Rightarrow> world \<Rightarrow> entries result" where
  \<comment> \<open>the loop over \<open>attachments\<close> that fills \<open>annotations_by_attachment\<close>\<close>
  "collect_annotations s c [] acc w = (Inr acc, w)"
| "collect_annotations s c (att # atts) acc w =
     (case key att of
        None \<Rightarrow> (Inl (KeyError ''key''), w)
      | Some k \<Rightarrow>
          (case query_annotations s c k w of
             (Inl e, w1) \<Rightarrow> (Inl e, w1)
           | (Inr annotations, w1) \<Rightarrow>
               collect_annotations s c atts
                 (if annotations \<noteq> [] then AList.update k (att, annotations) acc else acc) w1))"

definition export_item :: "sys \<Rightarrow> zotero_client \<Rightarrow> string \<Rightarrow> zitem \<Rightarrow> world \<Rightarrow> unit result" where
  \<comment> \<open>the body of the loop over \<open>items\<close> in \<open>export\<close>\<close>
  "export_item s c output_dir item w =
     (case key item of
        None \<Rightarrow> (Inl (KeyError ''key''), w)
      | Some k \<Rightarrow>
          (case query_attachments s c k w of
             (Inl e, w1) \<Rightarrow> (Inl e, w1)
           | (Inr attachments, w1) \<Rightarrow>
               (case collect_annotations s c attachments [] w1 of
                  (Inl e, w2) \<Rightarrow> (Inl e, w2)
                | (Inr annotations_by_attachment, w2) \<Rightarrow>
                    if annotations_by_attachment \<noteq> []
                    then write_markdown_for_item item annotations_by_attachment output_dir w2
                    else (case data item of
                            None \<Rightarrow> (Inl (KeyError ''data''), w2)
                          | Some d \<Rightarrow> (Inr (), print (NoAnnotationsFound (title d)) w2)))))"

fun export_items :: "sys \<Rightarrow> zotero_client \<Rightarrow> string \<Rightarrow> zitem list \<Rightarrow> world \<Rightarrow> unit result" where
  "export_items s c output_dir [] w = (Inr (), w)"
| "export_items s c output_dir (item # items) w =
     (case export_item s c output_dir item w of
        (Inl e, w1) \<Rightarrow> (Inl e, w1)
      | (Inr _, w1) \<Rightarrow> export_items s c output_dir items w1)"

record export_args =
  export_output_dir :: string
  export_limit :: int

definition export :: "sys \<Rightarrow> (string \<rightharpoonup> string) \<Rightarrow> export_args \<Rightarrow> world \<Rightarrow> unit result" where
  "export s env args w =
     (let w0 = ensure_dir (export_output_dir args) w
      in case ZoteroClient env of
           Inl e \<Rightarrow> (Inl e, w0)
         | Inr c \<Rightarrow>
             (case query_items s c True (export_limit args) w0 of
                (Inl e, w1) \<Rightarrow> (Inl e, w1)
              | (Inr items, w1) \<Rightarrow>
                  export_items s c (export_output_dir args) items (print (Found (length items)) w1)))"

section \<open>zotero\_backup.py: the client of the backup\<close>

definition API_VERSION :: string where
  "API_VERSION = ''3''"

definition slugify_name :: "string \<Rightarrow> string" where
  \<comment> \<open>\<open>re.sub(r"[^0-9a-zA-Z\-_\.]+", "_", s).strip("_")[:150]\<close>\<close>
  "slugify_name s =
     take 150 (strip_chars (\<lambda>c. c = CHR ''_'')
       (sub_runs (\<lambda>c. \<not> (is_digit c \<or> is_lower_az c \<or> is_upper_az c
                          \<or> c = CHR ''-'' \<or> c = CHR ''_'' \<or> c = CHR ''.'')) ''_'' s))"

record zotero_backup = zotero_client +
  output_dir :: string
  include_attachments :: bool
  commit_repo :: bool
  sleep_between_requests :: pyfloat
  per_page :: int

definition items_dir :: "zotero_backup \<Rightarrow> string" where
  "items_dir zb = path_join (output_dir zb) ''items''"

definition attachments_dir :: "zotero_backup \<Rightarrow> string" where
  "attachments_dir zb = path_join (output_dir zb) ''attachments''"

definition annotations_dir :: "zotero_backup \<Rightarrow> string" where
  "annotations_dir zb = path_join (output_dir zb) ''annotations''"

definition meta_dir :: "zotero_backup \<Rightarrow> string" where
  "meta_dir zb = path_join (output_dir zb) ''meta''"

definition ZoteroBackup ::
  "string \<Rightarrow> string \<Rightarrow> string \<Rightarrow> string \<Rightarrow> bool \<Rightarrow> bool \<Rightarrow> pyfloat \<Rightarrow> int \<Rightarrow> world
     \<Rightarrow> zotero_backup \<times> world" where
  \<comment> \<open>\<open>ZoteroBackup.__init__\<close>: the settings, and the four output directories\<close>
  "ZoteroBackup k l t out att com slp pp w =
     (let zb = \<lparr>api_key = k, library_id = l, library_type = t, base_url = make_base_url t l,
                output_dir = out, include_attachments = att, commit_repo = com,
                sleep_between_requests = slp, per_page = pp\<rparr>
      in (zb, ensure_dir (meta_dir zb) (ensure_dir (annotations_dir zb)
                (ensure_dir (attachments_dir zb) (ensure_dir (items_dir zb) w)))))"

definition session_headers :: "zotero_backup \<Rightarrow> (string \<times> string) list" where
  "session_headers zb =
     [(''Zotero-API-Key'', api_key zb), (''User-Agent'', ''zotero_backup_script/1.0'')]"

definition zb_request ::
  "zotero_backup \<Rightarrow> string \<Rightarrow> (string \<times> pval) list option \<Rightarrow> bool \<Rightarrow> request" where
  \<comment> \<open>the request \<open>_get\<close> sends: the version parameter is added unless given\<close>
  "zb_request zb path ps strm =
     (let ps0 = (case ps of None \<Rightarrow> [] | Some p \<Rightarrow> p);
          ps1 = (if map_of ps0 ''v'' = None then ps0 @ [(''v'', PStr API_VERSION)] else ps0)
      in \<lparr>url = base_url zb @ path, params = ps1, headers = session_headers zb, stream = strm\<rparr>)"

definition zb_get ::
  "sys \<Rightarrow> zotero_backup \<Rightarrow> string \<Rightarrow> (string \<times> pval) list option \<Rightarrow> bool \<Rightarrow> world
     \<Rightarrow> response result" where
  \<comment> \<open>\<open>ZoteroBackup._get\<close>\<close>
  "zb_get s zb path ps strm w =
     (case session_get s (zb_request zb path ps strm) w of
           (Inl e, w1) \<Rightarrow> (Inl e, w1)
         | (Inr resp, w1) \<Rightarrow>
             if status_code resp = 429 then (Inl RuntimeError, w1)
             else (case raise_for_status resp of
                     Inl e \<Rightarrow> (Inl e, w1)
                   | Inr _ \<Rightarrow> (Inr resp, w1)))"

definition page_params :: "zotero_backup \<Rightarrow> int \<Rightarrow> (string \<times> pval) list" where
  \<comment> \<open>\<open>{"start": start, "limit": self.per_page}\<close>\<close>
  "page_params zb start = [(''start'', PInt start), (''limit'', PInt (per_page zb))]"

partial_function (option) list_all_items_loop ::
  "sys \<Rightarrow> zotero_backup \<Rightarrow> zitem list \<Rightarrow> int \<Rightarrow> world \<Rightarrow> (zitem list result) option" where
  \<comment> \<open>the \<open>while True\<close> loop of \<open>list_all_items\<close>; a loop that never ends is \<open>None\<close>\<close>
  "list_all_items_loop s zb items start w =
     (case zb_get s zb ''/items/top'' (Some (page_params zb start)) False w of
        (Inl e, w1) \<Rightarrow> Some (Inl e, w1)
      | (Inr resp, w1) \<Rightarrow>
          (case resp_json resp of
             Inl e \<Rightarrow> Some (Inl e, w1)
           | Inr batch \<Rightarrow>
               if batch = [] then Some (Inr items, w1)
               else (case time_sleep (sleep_between_requests zb)
                            (print (Fetched (length batch) start) w1) of
                       (Inl e, w2) \<Rightarrow> Some (Inl e, w2)
                     | (Inr _, w2) \<Rightarrow>
                         if int (length batch) < per_page zb then Some (Inr (items @ batch), w2)
                         else list_all_items_loop s zb (items @ batch)
                                (start + int (length batch)) w2)))"

definition list_all_items :: "sys \<Rightarrow> zotero_backup \<Rightarrow> world \<Rightarrow> (zitem list result) option" where
  "list_all_items s zb w = list_all_items_loop s zb [] 0 w"

definition get_item_children :: "sys \<Rightarrow> zotero_backup \<Rightarrow> string \<Rightarrow> world \<Rightarrow> zitem list result" where
  "get_item_children s zb item_key w =
     (case zb_get s zb (''/items/'' @ item_key @ ''/children'') None False w of
        (Inl e, w1) \<Rightarrow> (Inl e, w1)
      | (Inr resp, w1) \<Rightarrow> (resp_json resp, w1))"

fun candidate_href :: "string list \<Rightarrow> (string \<times> link) list \<Rightarrow> string option" where
  \<comment> \<open>the loop over the link names: the first name whose entry is a dictionary with an \<open>href\<close>\<close>
  "candidate_href [] lks = None"
| "candidate_href (c # cs) lks =
     (case map_of lks c of
        Some (LinkObj (Some h)) \<Rightarrow> if h \<noteq> [] then Some h else candidate_href cs lks
      | _ \<Rightarrow> candidate_href cs lks)"

definition first_entry_href :: "(string \<times> link) list \<Rightarrow> string option" where
  \<comment> \<open>\<open>next(iter(links.values()))\<close>, when it is a dictionary with an \<open>href\<close>\<close>
  "first_entry_href lks =
     (case lks of
        (n, LinkObj (Some h)) # _ \<Rightarrow> if h \<noteq> [] then Some h else None
      | _ \<Rightarrow> None)"

definition links_or_empty :: "zitem \<Rightarrow> (string \<times> link) list" where
  \<comment> \<open>\<open>attachment.get("links") or {}\<close>\<close>
  "links_or_empty attachment = (case links attachment of None \<Rightarrow> [] | Some l \<Rightarrow> l)"

definition resolve_href :: "zitem \<Rightarrow> string option" where
  \<comment> \<open>the value of \<open>href\<close> before the test \<open>if not href\<close>\<close>
  "resolve_href attachment =
     (let lks = links_or_empty attachment
      in case candidate_href [''enclosure'', ''file'', ''link'', ''attachment''] lks of
           Some h \<Rightarrow> Some h
         | None \<Rightarrow> first_entry_href lks)"

definition save_stream :: "string \<Rightarrow> response \<Rightarrow> world \<Rightarrow> world" where
  \<comment> \<open>\<open>open(dest_path, "wb")\<close> and the loop over \<open>iter_content\<close>\<close>
  "save_stream dest_path resp w =
     write_file dest_path (Bytes (concat (filter (\<lambda>chunk. chunk \<noteq> []) (chunks resp)))) w"

definition absolute_href :: "string \<Rightarrow> string" where
  \<comment> \<open>a relative \<open>href\<close> is made absolute\<close>
  "absolute_href h = (if take 1 h = ''/'' then ''https://api.zotero.org'' @ h else h)"

definition download_request :: "zotero_backup \<Rightarrow> string \<Rightarrow> request" where
  \<comment> \<open>\<open>self.session.get(href, stream=True)\<close>\<close>
  "download_request zb href =
     \<lparr>url = href, params = [], headers = session_headers zb, stream = True\<rparr>"

definition get_attachment_file ::
  "sys \<Rightarrow> zotero_backup \<Rightarrow> zitem \<Rightarrow> string \<Rightarrow> world \<Rightarrow> bool result" where
  "get_attachment_file s zb attachment dest_path w =
     (case resolve_href attachment of
        None \<Rightarrow>
          (if truthy (key attachment) then
             (case zb_get s zb (''/items/'' @ str_opt (key attachment) @ ''/file'') None True w of
                (Inl (HTTPError c), w1) \<Rightarrow> (Inr False, w1)
              | (Inl e, w1) \<Rightarrow> (Inl e, w1)
              | (Inr resp, w1) \<Rightarrow>
                  if status_code resp = 200 then (Inr True, save_stream dest_path resp w1)
                  else (Inr False, w1))
           else (Inr False, w))
      | Some h \<Rightarrow>
          (let href = absolute_href h;
               w0 = print (Downloading href) w
           in case session_get s (download_request zb href) w0 of
                (Inl e, w1) \<Rightarrow> (Inr False, print (FailedDownload href e) w1)
              | (Inr resp, w1) \<Rightarrow>
                  (case raise_for_status resp of
                     Inl e \<Rightarrow> (Inr False, print (FailedDownload href e) w1)
                   | Inr _ \<Rightarrow> (Inr True, save_stream dest_path resp w1))))"

section \<open>zotero\_backup.py: the backup run\<close>

definition empty_data :: zdata where
  \<comment> \<open>the \<open>{}\<close> of \<open>child.get("data", {})\<close>\<close>
  "empty_data =
     \<lparr>title = None, itemType = None, date = None, filename = None, creators = [],
      annotationType = None, annotationPageLabel = None, annotationText = None,
      annotationComment = None, annotationColor = None\<rparr>"

definition str_or :: "string option \<Rightarrow> string \<Rightarrow> string" where
  \<comment> \<open>\<open>v or d\<close> for an optional string \<open>v\<close>\<close>
  "str_or v d = (case v of None \<Rightarrow> d | Some x \<Rightarrow> if x \<noteq> [] then x else d)"

definition zfill :: "nat \<Rightarrow> string \<Rightarrow> string" where
  "zfill n x = replicate (n - length x) CHR ''0'' @ x"

definition hms :: "datetime \<Rightarrow> string" where
  "hms t = zfill 2 (str_nat (hour t)) @ '':'' @ zfill 2 (str_nat (minute t)) @ '':''
           @ zfill 2 (str_nat (second t))"

definition isoformat :: "datetime \<Rightarrow> string" where
  \<comment> \<open>\<open>datetime.isoformat()\<close>\<close>
  "isoformat t =
     zfill 4 (str_nat (year t)) @ ''-'' @ zfill 2 (str_nat (month t)) @ ''-''
     @ zfill 2 (str_nat (day t)) @ ''T'' @ hms t
     @ (if microsecond t = 0 then [] else ''.'' @ zfill 6 (str_nat (microsecond t)))"

definition strftime :: "datetime \<Rightarrow> string" where
  \<comment> \<open>\<open>strftime('%Y-%m-%dT%H:%M:%SZ')\<close>\<close>
  "strftime t =
     str_nat (year t) @ ''-'' @ zfill 2 (str_nat (month t)) @ ''-''
     @ zfill 2 (str_nat (day t)) @ ''T'' @ hms t @ ''Z''"

definition report_download ::
  "sys \<Rightarrow> zotero_backup \<Rightarrow> zitem \<Rightarrow> string \<Rightarrow> string \<Rightarrow> world \<Rightarrow> unit result" where
  \<comment> \<open>the block under \<open>if self.include_attachments\<close>\<close>
  "report_download s zb child att_key att_dir w =
     (let cdata = get_or (data child) empty_data;
          raw_fn = str_or (filename cdata) (str_or (title cdata) att_key);
          dest_path = path_join att_dir (slugify_name raw_fn)
      in case get_attachment_file s zb child dest_path w of
           (Inl e, w1) \<Rightarrow> (Inl e, w1)
         | (Inr success, w1) \<Rightarrow>
             if \<not> success then
               (let dest_path2 = path_join att_dir att_key
                in case get_attachment_file s zb child dest_path2 w1 of
                     (Inl e, w2) \<Rightarrow> (Inl e, w2)
                   | (Inr success2, w2) \<Rightarrow>
                       if success2 then (Inr (), print (SavedAs (path_name dest_path2)) w2)
                       else (Inr (), print (SkippedDownloading att_key) w2))
             else (Inr (), print (SavedFile (path_name dest_path)) w1))"

definition fetch_annotations :: "sys \<Rightarrow> zotero_backup \<Rightarrow> string \<Rightarrow> world \<Rightarrow> world" where
  \<comment> \<open>the \<open>try\<close> block that fetches the children of an attachment; it catches every exception\<close>
  "fetch_annotations s zb att_key w =
     (case get_item_children s zb att_key w of
        (Inl e, w1) \<Rightarrow> print (FailedChildren att_key e) w1
      | (Inr ann_children, w1) \<Rightarrow>
          (case time_sleep (sleep_between_requests zb) w1 of
             (Inl e, w2) \<Rightarrow> print (FailedChildren att_key e) w2
           | (Inr _, w2) \<Rightarrow>
               if ann_children \<noteq> [] then
                 print (SavedAnnotations (length ann_children))
                   (write_file (path_join (annotations_dir zb) (att_key @ ''.json''))
                      (JsonItems ann_children) w2)
               else w2))"

definition backup_child :: "sys \<Rightarrow> zotero_backup \<Rightarrow> zitem \<Rightarrow> world \<Rightarrow> unit result" where
  \<comment> \<open>the body of the loop over \<open>children\<close>\<close>
  "backup_child s zb child w =
     (let cdata = get_or (data child) empty_data;
          ctype = lower (get_or (itemType cdata) [])
      in if ctype = ''attachment'' then
           (case key child of
              None \<Rightarrow> (Inl TypeError, w)
            | Some att_key \<Rightarrow>
                (let att_dir = path_join (attachments_dir zb) att_key;
                     w1 = ensure_dir att_dir w;
                     w2 = write_file (path_join att_dir (att_key @ ''.json'')) (JsonItem child) w1
                 in if include_attachments zb then
                      (case report_download s zb child att_key att_dir w2 of
                         (Inl e, w3) \<Rightarrow> (Inl e, w3)
                       | (Inr _, w3) \<Rightarrow> (Inr (), fetch_annotations s zb att_key w3))
                    else (Inr (), fetch_annotations s zb att_key w2)))
         else (Inr (), w))"

fun backup_children :: "sys \<Rightarrow> zotero_backup \<Rightarrow> zitem list \<Rightarrow> world \<Rightarrow> unit result" where
  "backup_children s zb [] w = (Inr (), w)"
| "backup_children s zb (child # children) w =
     (case backup_child s zb child w of
        (Inl e, w1) \<Rightarrow> (Inl e, w1)
      | (Inr _, w1) \<Rightarrow> backup_children s zb children w1)"

definition backup_item :: "sys \<Rightarrow> zotero_backup \<Rightarrow> nat \<Rightarrow> nat \<Rightarrow> zitem \<Rightarrow> world \<Rightarrow> unit result" where
  \<comment> \<open>the body of the loop over \<open>items\<close>; \<open>idx\<close> counts from 1, \<open>n\<close> is \<open>len(items)\<close>\<close>
  "backup_item s zb idx n item w =
     (let d = get_or (data item) empty_data;
          item_key = str_opt (key item);
          ttl = get_or (title d) (''item-'' @ item_key);
          w1 = print (BackingUp idx n (key item) ttl) w;
          w2 = write_file (path_join (items_dir zb) (item_key @ ''.json'')) (JsonItem item) w1
      in case get_item_children s zb item_key w2 of
           (Inl e, w3) \<Rightarrow> (Inl e, w3)
         | (Inr children, w3) \<Rightarrow>
             (case time_sleep (sleep_between_requests zb) w3 of
                (Inl e, w4) \<Rightarrow> (Inl e, w4)
              | (Inr _, w4) \<Rightarrow> backup_children s zb children w4))"

fun backup_items :: "sys \<Rightarrow> zotero_backup \<Rightarrow> nat \<Rightarrow> nat \<Rightarrow> zitem list \<Rightarrow> world \<Rightarrow> unit result" where
  "backup_items s zb idx n [] w = (Inr (), w)"
| "backup_items s zb idx n (item # items) w =
     (case backup_item s zb idx n item w of
        (Inl e, w1) \<Rightarrow> (Inl e, w1)
      | (Inr _, w1) \<Rightarrow> backup_items s zb (Suc idx) n items w1)"

section \<open>zotero\_backup.py: the git helpers\<close>

definition run_checked :: "sys \<Rightarrow> string list \<Rightarrow> world \<Rightarrow> unit result" where
  \<comment> \<open>\<open>subprocess.run(args, check=True)\<close>\<close>
  "run_checked s args w =
     (let r = subprocess s (trace w) args; w1 = emit (Run args r) w
      in case r of
           NotStarted \<Rightarrow> (Inl OSError, w1)
         | Exited c \<Rightarrow> if c = 0 then (Inr (), w1) else (Inl (CalledProcessError c), w1))"

definition git_rev_parse :: "zotero_backup \<Rightarrow> string list" where
  "git_rev_parse zb = [''git'', ''-C'', output_dir zb, ''rev-parse'']"

definition git_init :: "zotero_backup \<Rightarrow> string list" where
  "git_init zb = [''git'', ''init'', output_dir zb]"

definition git_add :: "zotero_backup \<Rightarrow> string list" where
  "git_add zb = [''git'', ''-C'', output_dir zb, ''add'', ''.'']"

definition git_commit :: "zotero_backup \<Rightarrow> string \<Rightarrow> string list" where
  "git_commit zb m = [''git'', ''-C'', output_dir zb, ''commit'', ''-m'', m]"

definition is_git_repo :: "sys \<Rightarrow> zotero_backup \<Rightarrow> world \<Rightarrow> bool result" where
  \<comment> \<open>\<open>ZoteroBackup._is_git_repo\<close>\<close>
  "is_git_repo s zb w =
     (case run_checked s (git_rev_parse zb) w of
        (Inl (CalledProcessError c), w1) \<Rightarrow> (Inr False, w1)
      | (Inl e, w1) \<Rightarrow> (Inl e, w1)
      | (Inr _, w1) \<Rightarrow> (Inr True, w1))"

definition gitignore_text :: string where
  "gitignore_text =
     newline @ ''# Example .gitignore - adjust as needed'' @ newline @ ''__pycache__/''
     @ newline @ ''*.pyc'' @ newline"

definition commit_message :: "datetime \<Rightarrow> string" where
  "commit_message t = ''Zotero backup '' @ strftime t"

definition gitignore_path :: "zotero_backup \<Rightarrow> string" where
  "gitignore_path zb = path_join (output_dir zb) ''.gitignore''"

definition stage_and_commit :: "sys \<Rightarrow> zotero_backup \<Rightarrow> world \<Rightarrow> unit result" where
  \<comment> \<open>\<open>_maybe_init_and_commit\<close> from the ignore file on\<close>
  "stage_and_commit s zb w =
     (let gi_path = gitignore_path zb;
          w1 = (if files w gi_path = None then write_file gi_path (Text gitignore_text) w else w)
      in case run_checked s (git_add zb) w1 of
           (Inl (CalledProcessError c), w2) \<Rightarrow>
             (Inr (), print (AddCommitFailed (CalledProcessError c)) w2)
         | (Inl e, w2) \<Rightarrow> (Inl e, w2)
         | (Inr _, w2) \<Rightarrow>
             (case run_checked s (git_commit zb (commit_message (utcnow s (trace w2)))) w2 of
                (Inl (CalledProcessError c), w3) \<Rightarrow>
                  (Inr (), print (AddCommitFailed (CalledProcessError c)) w3)
              | (Inl e, w3) \<Rightarrow> (Inl e, w3)
              | (Inr _, w3) \<Rightarrow> (Inr (), print Committed w3)))"

definition maybe_init_and_commit :: "sys \<Rightarrow> zotero_backup \<Rightarrow> world \<Rightarrow> unit result" where
  \<comment> \<open>\<open>ZoteroBackup._maybe_init_and_commit\<close>\<close>
  "maybe_init_and_commit s zb w =
     (case is_git_repo s zb w of
        (Inl e, w1) \<Rightarrow> (Inl e, w1)
      | (Inr is_repo, w1) \<Rightarrow>
          if \<not> is_repo then
            (case run_checked s (git_init zb) (print InitializingRepo w1) of
               (Inl e, w2) \<Rightarrow> (Inr (), print (FailedInit e) w2)
             | (Inr _, w2) \<Rightarrow> stage_and_commit s zb w2)
          else stage_and_commit s zb w1)"

section \<open>zotero\_backup.py: the run and the command\<close>

definition ZoteroBackup_backup :: "sys \<Rightarrow> zotero_backup \<Rightarrow> world \<Rightarrow> (unit result) option" where
  \<comment> \<open>\<open>ZoteroBackup.backup\<close>\<close>
  "ZoteroBackup_backup s zb w =
     (case list_all_items s zb (print StartingBackup w) of
        None \<Rightarrow> None
      | Some (Inl e, w1) \<Rightarrow> Some (Inl e, w1)
      | Some (Inr items, w1) \<Rightarrow>
          (let w2 = write_file (path_join (meta_dir zb) ''backup_meta.json'')
                      (JsonMeta (isoformat (utcnow s (trace w1)) @ ''Z'') (length items)) w1
           in case backup_items s zb 1 (length items) items w2 of
                (Inl e, w3) \<Rightarrow> Some (Inl e, w3)
              | (Inr _, w3) \<Rightarrow>
                  if commit_repo zb then Some (maybe_init_and_commit s zb (print BackupComplete w3))
                  else Some (Inr (), print BackupComplete w3)))"

record backup_args =
  arg_output_dir :: string
  arg_include_attachments :: bool
  arg_commit_repo :: bool
  arg_sleep :: pyfloat
  arg_per_page :: int

datatype outcome = Returned | SystemExit nat | Uncaught exn

definition backup ::
  "sys \<Rightarrow> (string \<rightharpoonup> string) \<Rightarrow> backup_args \<Rightarrow> world \<Rightarrow> (outcome \<times> world) option" where
  \<comment> \<open>the command \<open>backup()\<close>, after \<open>parse_args\<close> has returned \<open>args\<close>\<close>
  "backup s env args w =
     (let api_key = env_get env ''ZOTERO_API_KEY'' None;
          lib_id = env_get env ''ZOTERO_LIBRARY_ID'' None;
          lib_type = env_get env ''ZOTERO_LIBRARY_TYPE'' (Some ''users'')
      in if \<not> truthy api_key \<or> \<not> truthy lib_id then
           Some (SystemExit 2, print MissingEnvironment w)
         else
           (case ZoteroBackup (str_opt api_key) (str_opt lib_id) (str_opt lib_type)
                   (arg_output_dir args) (arg_include_attachments args) (arg_commit_repo args)
                   (arg_sleep args) (arg_per_page args) w of
              (zb, w1) \<Rightarrow>
                (case ZoteroBackup_backup s zb w1 of
                   None \<Rightarrow> None
                 | Some (Inl e, w2) \<Rightarrow> Some (Uncaught e, print (ErrorDuringBackup e) w2)
                 | Some (Inr _, w2) \<Rightarrow> Some (Returned, w2))))"

section \<open>Observing a run\<close>

definition events_since :: "world \<Rightarrow> world \<Rightarrow> event list" where
  \<comment> \<open>the events a run added, from the world before and the world after\<close>
  "events_since w w' = drop (length (trace w)) (trace w')"

fun is_request :: "event \<Rightarrow> bool" where
  "is_request (Request rq rp) = True"
| "is_request e = False"

fun is_write :: "event \<Rightarrow> bool" where
  "is_write (Write p c) = True"
| "is_write e = False"

fun written_paths :: "event list \<Rightarrow> string list" where
  "written_paths [] = []"
| "written_paths (Write p c # es) = p # written_paths es"
| "written_paths (e # es) = written_paths es"

fun requests_of :: "event list \<Rightarrow> request list" where
  "requests_of [] = []"
| "requests_of (Request rq rp # es) = rq # requests_of es"
| "requests_of (e # es) = requests_of es"

definition ignore_events :: "zotero_backup \<Rightarrow> world \<Rightarrow> event list" where
  \<comment> \<open>the write of the default ignore file, when the file is absent\<close>
  "ignore_events zb w =
     (if files w (gitignore_path zb) = None
      then [Write (gitignore_path zb) (Text gitignore_text)] else [])"

fun is_commit :: "zotero_backup \<Rightarrow> event \<Rightarrow> bool" where
  \<comment> \<open>a run of \<open>git commit\<close> in the output directory\<close>
  "is_commit zb (Run args r) = (\<exists>m \<in> set (drop 5 args). args = git_commit zb m)"
| "is_commit zb e = False"

definition stage_tail :: "sys \<Rightarrow> zotero_backup \<Rightarrow> event list \<Rightarrow> event list" where
  \<comment> \<open>what follows the run of \<open>git add\<close>, given the events up to it\<close>
  "stage_tail s zb tr =
     (case subprocess s tr (git_add zb) of
        NotStarted \<Rightarrow> []
      | Exited a \<Rightarrow>
          if a \<noteq> 0 then [Print (AddCommitFailed (CalledProcessError a))]
          else (let t2 = tr @ [Run (git_add zb) (Exited 0)];
                    cm = git_commit zb (commit_message (utcnow s t2))
                in Run cm (subprocess s t2 cm) #
                   (case subprocess s t2 cm of
                      NotStarted \<Rightarrow> []
                    | Exited c \<Rightarrow> if c = 0 then [Print Committed]
                                  else [Print (AddCommitFailed (CalledProcessError c))])))"

definition page_request :: "zotero_backup \<Rightarrow> int \<Rightarrow> request" where
  \<comment> \<open>the request for the page of top-level items that starts at an offset\<close>
  "page_request zb start = zb_request zb ''/items/top'' (Some (page_params zb start)) False"

definition children_request :: "zotero_backup \<Rightarrow> string \<Rightarrow> request" where
  \<comment> \<open>the request for the children of an item\<close>
  "children_request zb k = zb_request zb (''/items/'' @ k @ ''/children'') None False"

definition batch_of :: "response \<Rightarrow> zitem list" where
  \<comment> \<open>the list of items in the body of a response\<close>
  "batch_of r = (case json_body r of None \<Rightarrow> [] | Some b \<Rightarrow> b)"

definition page_ok :: "response \<Rightarrow> bool" where
  \<comment> \<open>a response that \<open>_get\<close> returns and whose body is JSON\<close>
  "page_ok r = (\<not> (400 \<le> status_code r \<and> status_code r < 600) \<and> json_body r \<noteq> None)"

fun page_starts :: "int \<Rightarrow> zitem list list \<Rightarrow> int list" where
  \<comment> \<open>the offsets that advance by the sizes of the batches\<close>
  "page_starts start [] = []"
| "page_starts start (b # bs) = start # page_starts (start + int (length b)) bs"

definition item_type :: "zitem \<Rightarrow> string option" where
  \<comment> \<open>\<open>item["data"].get("itemType")\<close>, for an item that has \<open>data\<close>\<close>
  "item_type i = (case data i of None \<Rightarrow> None | Some d \<Rightarrow> itemType d)"

definition children_url :: "zotero_client \<Rightarrow> string \<Rightarrow> request" where
  \<comment> \<open>the request of the Markdown export for the children of an item\<close>
  "children_url c k = client_request c (base_url c @ ''/items/'' @ k @ ''/children'') []"

text \<open>
  A library, as the server shows it during one export: for every key, the response to the
  request for the children of that item.
\<close>

type_synonym library = "string \<Rightarrow> response"

definition attachments_of :: "library \<Rightarrow> string \<Rightarrow> zitem list" where
  \<comment> \<open>the children of an item that are attachments\<close>
  "attachments_of lib k = filter (\<lambda>i. item_type i = Some ''attachment'') (batch_of (lib k))"

definition annotations_of :: "library \<Rightarrow> zitem \<Rightarrow> zitem list" where
  \<comment> \<open>the children of an attachment that are annotations\<close>
  "annotations_of lib att =
     filter (\<lambda>i. item_type i = Some ''annotation'') (batch_of (lib (str_opt (key att))))"

definition annotated :: "library \<Rightarrow> string \<Rightarrow> bool" where
  \<comment> \<open>the item has at least one attachment with at least one annotation\<close>
  "annotated lib k = list_ex (\<lambda>att. annotations_of lib att \<noteq> []) (attachments_of lib k)"

definition well_formed :: "library \<Rightarrow> string \<Rightarrow> bool" where
  \<comment> \<open>the children of the item and of its attachments have \<open>data\<close>, and its attachments a key\<close>
  "well_formed lib k =
     (list_all (\<lambda>i. data i \<noteq> None) (batch_of (lib k))
      \<and> list_all (\<lambda>att. key att \<noteq> None
                    \<and> list_all (\<lambda>i. data i \<noteq> None) (batch_of (lib (str_opt (key att)))))
           (attachments_of lib k))"

definition entries_ok :: "entries \<Rightarrow> bool" where
  \<comment> \<open>every attachment and annotation collected for an item has \<open>data\<close>\<close>
  "entries_ok es =
     list_all (\<lambda>(k, a, anns). data a \<noteq> None \<and> list_all (\<lambda>i. data i \<noteq> None) anns) es"

fun printed :: "event list \<Rightarrow> msg list" where
  \<comment> \<open>the lines printed, in order\<close>
  "printed [] = []"
| "printed (Print m # es) = m # printed es"
| "printed (e # es) = printed es"

definition item_title :: "zitem \<Rightarrow> string option" where
  \<comment> \<open>\<open>item['data'].get('title')\<close>\<close>
  "item_title item = (case data item of None \<Rightarrow> None | Some d \<Rightarrow> title d)"

definition md_path :: "string \<Rightarrow> zitem \<Rightarrow> string" where
  \<comment> \<open>the path of the Markdown file of an item\<close>
  "md_path out item =
     path_join out (md_filename (get_or (item_title item) ''Untitled'') (str_opt (key item)))"

definition item_report :: "library \<Rightarrow> string \<Rightarrow> zitem \<Rightarrow> msg" where
  \<comment> \<open>the line printed for an item: the file written, or the skip notice\<close>
  "item_report lib out item =
     (if annotated lib (str_opt (key item)) then Wrote (path_name (md_path out item))
      else NoAnnotationsFound (item_title item))"

definition owes_sleep :: "event \<Rightarrow> bool" where
  \<comment> \<open>a request of \<open>list_all_items\<close> or \<open>get_item_children\<close> that returned its list of items;
      for a page of top-level items (the request has a \<open>start\<close>) the list is not empty\<close>
  "owes_sleep e =
     (case e of
        Request rq (Response r) \<Rightarrow>
          \<not> stream rq \<and> page_ok r \<and> (map_of (params rq) ''start'' \<noteq> None \<longrightarrow> batch_of r \<noteq> [])
      | _ \<Rightarrow> False)"

definition empty_page :: "event \<Rightarrow> bool" where
  \<comment> \<open>a request of \<open>list_all_items\<close> that returned an empty list, where its loop ends\<close>
  "empty_page e =
     (case e of
        Request rq (Response r) \<Rightarrow>
          \<not> stream rq \<and> page_ok r \<and> map_of (params rq) ''start'' \<noteq> None \<and> batch_of r = []
      | _ \<Rightarrow> False)"

definition sleep_length :: "pyfloat \<Rightarrow> real option" where
  \<comment> \<open>the length of the sleep, for a setting that \<open>time.sleep\<close> accepts\<close>
  "sleep_length d =
     (case d of Finite x \<Rightarrow> if 0 \<le> x \<and> x < max_sleep then Some x else None | _ \<Rightarrow> None)"

fun slept :: "real \<Rightarrow> event list \<Rightarrow> bool" where
  \<comment> \<open>a sleep of the given length comes before the next request\<close>
  "slept d [] = False"
| "slept d (Sleep x # es) = (x = d)"
| "slept d (Request rq rp # es) = False"
| "slept d (e # es) = slept d es"

fun paced :: "real \<Rightarrow> event list \<Rightarrow> bool" where
  \<comment> \<open>every request that owes a sleep is followed by one before the next request\<close>
  "paced d [] = True"
| "paced d (e # es) = ((owes_sleep e \<longrightarrow> slept d es) \<and> paced d es)"

fun unslept :: "event list \<Rightarrow> bool" where
  \<comment> \<open>no sleep comes before the next request\<close>
  "unslept [] = True"
| "unslept (Sleep x # es) = False"
| "unslept (Request rq rp # es) = True"
| "unslept (e # es) = unslept es"

definition paced_by :: "pyfloat \<Rightarrow> event list \<Rightarrow> bool" where
  \<comment> \<open>paced, when the setting is a length that \<open>time.sleep\<close> accepts\<close>
  "paced_by d es = (case sleep_length d of None \<Rightarrow> True | Some x \<Rightarrow> paced x es)"

fun is_run :: "event \<Rightarrow> bool" where
  "is_run (Run args r) = True"
| "is_run e = False"

fun download_event :: "event \<Rightarrow> bool" where
  \<comment> \<open>what a download attempt may do: streamed requests, prints, and writes of downloaded bytes\<close>
  "download_event (Request rq rp) = stream rq"
| "download_event (Write p c) = (case c of Bytes b \<Rightarrow> True | _ \<Rightarrow> False)"
| "download_event (Print m) = True"
| "download_event e = False"

definition download_step :: "event \<Rightarrow> bool" where
  \<comment> \<open>a download attempt does not print \<open>Backup complete.\<close>\<close>
  "download_step e = (download_event e \<and> e \<noteq> Print BackupComplete)"

definition fetch_event :: "event \<Rightarrow> bool" where
  \<comment> \<open>what a run may do before its items are all processed: it runs no command and does not
      print \<open>Backup complete.\<close>\<close>
  "fetch_event e = (\<not> is_run e \<and> e \<noteq> Print BackupComplete)"

definition item_event :: "event \<Rightarrow> bool" where
  \<comment> \<open>what the backup of an item may do: moreover, no page of top-level items comes back empty\<close>
  "item_event e = (fetch_event e \<and> \<not> empty_page e)"

fun quiet :: "event \<Rightarrow> bool" where
  \<comment> \<open>neither a request nor a sleep\<close>
  "quiet (Request rq rp) = False"
| "quiet (Sleep x) = False"
| "quiet e = True"

fun last_only :: "event list \<Rightarrow> bool" where
  \<comment> \<open>a page that comes back empty is the last event\<close>
  "last_only [] = True"
| "last_only (e # es) = ((empty_page e \<longrightarrow> es = []) \<and> last_only es)"

fun settled :: "event list \<Rightarrow> bool" where
  \<comment> \<open>after a page that comes back empty, no sleep comes before the next request\<close>
  "settled [] = True"
| "settled (e # es) = ((empty_page e \<longrightarrow> unslept es) \<and> settled es)"

definition extends :: "(event \<Rightarrow> bool) \<Rightarrow> pyfloat \<Rightarrow> world \<Rightarrow> world \<Rightarrow> bool" where
  \<comment> \<open>the second world continues the first one: the new events are of the given kind and
      paced, a path they do not write keeps its content, and a path they write exists\<close>
  "extends Q d w w' =
     (\<exists>es. trace w' = trace w @ es \<and> paced_by d es \<and> list_all Q es
        \<and> (\<forall>p. p \<notin> set (written_paths es) \<longrightarrow> files w' p = files w p)
        \<and> (\<forall>p \<in> set (written_paths es). files w' p \<noteq> None))"

section \<open>Sample inputs\<close>

definition epoch :: datetime where
  "epoch = \<lparr>year = 2025, month = 1, day = 2, hour = 3, minute = 4, second = 5, microsecond = 0\<rparr>"

definition response_with :: "nat \<Rightarrow> response" where
  \<comment> \<open>a response with the given status, an empty JSON list and one chunk of content\<close>
  "response_with c = \<lparr>status_code = c, json_body = Some [], chunks = [''x'']\<rparr>"

definition status_reply :: "nat \<Rightarrow> reply" where
  "status_reply c = Response (response_with c)"

definition const_sys :: "reply \<Rightarrow> sys" where
  \<comment> \<open>a server that gives the same reply to every request; \<open>git\<close> succeeds\<close>
  "const_sys rp = \<lparr>http = (\<lambda>tr rq. rp), subprocess = (\<lambda>tr args. Exited 0), utcnow = (\<lambda>tr. epoch)\<rparr>"

definition world0 :: world where
  "world0 = \<lparr>trace = [], files = Map.empty\<rparr>"

definition client0 :: zotero_client where
  "client0 = \<lparr>api_key = ''k'', library_id = ''1'', library_type = ''users'',
              base_url = make_base_url ''users'' ''1''\<rparr>"

definition backup0 :: zotero_backup where
  "backup0 = \<lparr>api_key = ''k'', library_id = ''1'', library_type = ''users'',
              base_url = make_base_url ''users'' ''1'', output_dir = ''out'',
              include_attachments = True, commit_repo = True,
              sleep_between_requests = Finite (1 / 2), per_page = 100\<rparr>"

definition jane :: "string \<Rightarrow> creator" where
  "jane role = \<lparr>creatorType = Some role, firstName = Some ''Jane Q.'', lastName = Some ''Doe''\<rparr>"

definition item_with :: "string option \<Rightarrow> string option \<Rightarrow> string option \<Rightarrow> zitem" where
  \<comment> \<open>an item with the given key, type and title, and no links\<close>
  "item_with k ty ttl = \<lparr>key = k, data = Some (empty_data\<lparr>title := ttl, itemType := ty\<rparr>), links = None\<rparr>"

definition entries0 :: entries where
  \<comment> \<open>one attachment with one annotation\<close>
  "entries0 = [(''A1'', item_with (Some ''A1'') (Some ''attachment'') (Some ''paper.pdf''),
                [item_with (Some ''N1'') (Some ''annotation'') None])]"

definition file_missing_sys :: sys where
  \<comment> \<open>a server that answers 404 for the file of attachment \<open>A1\<close> and 200 for everything else\<close>
  "file_missing_sys =
     \<lparr>http = (\<lambda>tr rq. if url rq = make_base_url ''users'' ''1'' @ ''/items/A1/file''
                        then status_reply 404 else status_reply 200),
      subprocess = (\<lambda>tr args. Exited 0), utcnow = (\<lambda>tr. epoch)\<rparr>"

definition attachment_self :: zitem where
  \<comment> \<open>an attachment whose only link is \<open>self\<close>\<close>
  "attachment_self =
     \<lparr>key = Some ''A1'',
      data = Some (empty_data\<lparr>itemType := Some ''attachment'', filename := Some ''paper.pdf''\<rparr>),
      links = Some [(''self'', LinkObj (Some ''https://api.zotero.org/users/1/items/A1''))]\<rparr>"

definition attachment_plain :: zitem where
  \<comment> \<open>an attachment without links\<close>
  "attachment_plain =
     \<lparr>key = Some ''A1'',
      data = Some (empty_data\<lparr>itemType := Some ''attachment'', filename := Some ''paper.pdf''\<rparr>),
      links = None\<rparr>"

definition args0 :: backup_args where
  \<comment> \<open>the defaults of the command line, with output directory \<open>out\<close>\<close>
  "args0 = \<lparr>arg_output_dir = ''out'', arg_include_attachments = True, arg_commit_repo = True,
            arg_sleep = Finite (1 / 2), arg_per_page = 100\<rparr>"


definition ok_response :: "zitem list \<Rightarrow> response" where
  \<comment> \<open>status 200 with a batch of items as JSON body\<close>
  "ok_response batch = \<lparr>status_code = 200, json_body = Some batch, chunks = []\<rparr>"

definition stub_sys :: "response list \<Rightarrow> sys" where
  \<comment> \<open>a stubbed server: the n-th request of the run gets the n-th response of the list\<close>
  "stub_sys rs =
     \<lparr>http = (\<lambda>tr rq. if length (requests_of tr) < length rs
                        then Response (rs ! length (requests_of tr)) else NoResponse),
      subprocess = (\<lambda>tr args. Exited 0), utcnow = (\<lambda>tr. epoch)\<rparr>"

definition batch :: "nat \<Rightarrow> nat \<Rightarrow> zitem list" where
  \<comment> \<open>\<open>n\<close> items, with keys numbered from \<open>k\<close>\<close>
  "batch k n = map (\<lambda>i. item_with (Some (str_nat i)) (Some ''book'') None) [k..<k + n]"

definition env0 :: "string \<rightharpoonup> string" where
  "env0 = [''ZOTERO_API_KEY'' \<mapsto> ''k'', ''ZOTERO_LIBRARY_ID'' \<mapsto> ''1'']"

definition export_args0 :: export_args where
  "export_args0 = \<lparr>export_output_dir = ''notes'', export_limit = 100\<rparr>"

definition top_request0 :: request where
  \<comment> \<open>the request of the Markdown export for the top-level items\<close>
  "top_request0 = client_request client0 (base_url client0 @ ''/items/top'') [(''limit'', PInt 100)]"

definition top_items0 :: "zitem list" where
  "top_items0 = [item_with (Some ''I1'') (Some ''book'') (Some ''First''),
                 item_with (Some ''I2'') (Some ''book'') (Some ''Second'')]"

definition library0 :: library where
  \<comment> \<open>item \<open>I1\<close> has an attachment with one annotation, item \<open>I2\<close> an attachment without\<close>
  "library0 k =
     ok_response
       (if k = ''I1'' then [item_with (Some ''A1'') (Some ''attachment'') (Some ''one.pdf'')]
        else if k = ''A1'' then [item_with (Some ''N1'') (Some ''annotation'') None]
        else if k = ''I2'' then [item_with (Some ''A2'') (Some ''attachment'') (Some ''two.pdf'')]
        else [])"

definition library_sys :: sys where
  \<comment> \<open>a server that shows \<open>library0\<close> and the two top-level items\<close>
  "library_sys =
     \<lparr>http = (\<lambda>tr rq. if rq = top_request0 then Response (ok_response top_items0)
                        else if rq = children_url client0 ''I1'' then Response (library0 ''I1'')
                        else if rq = children_url client0 ''A1'' then Response (library0 ''A1'')
                        else if rq = children_url client0 ''I2'' then Response (library0 ''I2'')
                        else Response (ok_response [])),
      subprocess = (\<lambda>tr args. Exited 0), utcnow = (\<lambda>tr. epoch)\<rparr>"

definition no_commit :: zotero_backup where
  \<comment> \<open>\<open>backup0\<close> with \<open>--no-commit\<close>\<close>
  "no_commit = backup0\<lparr>commit_repo := False\<rparr>"

definition one_per_page :: zotero_backup where
  \<comment> \<open>\<open>backup0\<close> with \<open>--no-commit --per-page 1\<close>\<close>
  "one_per_page = backup0\<lparr>commit_repo := False, per_page := 1\<rparr>"

definition first_item :: zitem where
  "first_item = item_with (Some ''I1'') (Some ''book'') (Some ''First'')"

section \<open>Basic facts about the world\<close>

lemma trace_emit [simp]: "trace (emit e w) = trace w @ [e]"
  by (simp add: emit_def)

lemma files_emit [simp]: "files (emit e w) = files w"
  by (simp add: emit_def)

lemma trace_print [simp]: "trace (print m w) = trace w @ [Print m]"
  by (simp add: print_def)

lemma files_print [simp]: "files (print m w) = files w"
  by (simp add: print_def)

lemma trace_write_file [simp]: "trace (write_file p c w) = trace w @ [Write p c]"
  by (simp add: write_file_def)

lemma files_write_file [simp]: "files (write_file p c w) = (files w)(p \<mapsto> c)"
  by (simp add: write_file_def)

lemma trace_ensure_dir [simp]: "trace (ensure_dir p w) = trace w @ [Mkdir p]"
  by (simp add: ensure_dir_def)

lemma files_ensure_dir [simp]: "files (ensure_dir p w) = files w"
  by (simp add: ensure_dir_def)

lemma events_since_append [simp]: "trace w' = trace w @ es \<Longrightarrow> events_since w w' = es"
  by (simp add: events_since_def)

lemma events_since_self [simp]: "events_since w w = []"
  by (simp add: events_since_def)

section \<open>Author tags\<close>

lemma author_tags_append: "author_tags (xs @ ys) = author_tags xs @ author_tags ys"
  by (induction xs) (simp_all add: Let_def)

lemma slug_jane_q_doe:
  "slugify (lower (strip ''Jane Q.'') @ ''-'' @ lower (strip ''Doe'')) = ''jane-q-doe''"
  by code_simp

lemma last_name_doe: "lower (strip ''Doe'') \<noteq> []"
  by code_simp

text \<open>
  C2, as the code has it. Among the creators of an item, an author or editor with first name
  \<open>Jane Q.\<close> and last name \<open>Doe\<close> contributes exactly the tag \<open>#jane-q-doe\<close>: the slug keeps
  every run of letters and digits, the middle initial too. A creator whose type is neither
  \<open>author\<close> nor \<open>editor\<close> contributes no tag.
\<close>

theorem author_tag_of_creator:
  "((creatorType c = Some ''author'' \<or> creatorType c = Some ''editor'')
      \<and> firstName c = Some ''Jane Q.'' \<and> lastName c = Some ''Doe''
     \<longrightarrow> author_tags (cs @ c # cs') = author_tags cs @ ''#jane-q-doe'' # author_tags cs')
   \<and> (creatorType c \<noteq> Some ''author'' \<and> creatorType c \<noteq> Some ''editor''
     \<longrightarrow> author_tags (cs @ c # cs') = author_tags cs @ author_tags cs')"
  using slug_jane_q_doe last_name_doe
  by (auto simp: author_tags_append get_or_def Let_def)

theorem author_tag_of_creator_witness:
  "author_tags [jane ''author''] = [''#jane-q-doe'']
   \<and> author_tags [jane ''editor''] = [''#jane-q-doe'']
   \<and> author_tags [jane ''contributor''] = []"
  using author_tag_of_creator [of "jane ''author''" "[]" "[]"]
        author_tag_of_creator [of "jane ''editor''" "[]" "[]"]
        author_tag_of_creator [of "jane ''contributor''" "[]" "[]"]
  by (simp add: jane_def)

text \<open>
  C2 as the specification states it fails: the tag of the author Jane Q. Doe is not
  \<open>#jane-doe\<close>.
\<close>

theorem author_tag_jane_doe_counterexample:
  "author_tags [jane ''author''] = [''#jane-q-doe'']
   \<and> author_tags [jane ''author''] \<noteq> [''#jane-doe'']"
  by code_simp

section \<open>The name of the Markdown file\<close>

text \<open>
  C7, as the code has it. The file written for an item is named by its title and its key
  alone: the title (\<open>Untitled\<close> when the item has none) with each of the nine characters
  \<open>\ / * ? : " < > |\<close> replaced by \<open>_\<close> and cut to 100 characters, or \<open>untitled\<close> when that is
  empty; then \<open>_\<close>, the key and \<open>.md\<close>. Two renderings of items with the same title and key
  write the same path, whatever else the items, the annotations and the worlds hold.
\<close>

theorem markdown_filename:
  assumes "data item1 = Some d1" and "data item2 = Some d2"
    and "title d1 = title d2"
    and "key item1 = Some k" and "key item2 = Some k"
    and "attachment_lines abt1 = Inr ls1" and "attachment_lines abt2 = Inr ls2"
  defines "st \<equiv> take 100 (map (\<lambda>c. if c \<in> {CHR 0x5C, CHR ''/'', CHR ''*'', CHR ''?'', CHR '':'',
                                             CHR 0x22, CHR ''<'', CHR ''>'', CHR ''|''}
                                   then CHR ''_'' else c) (get_or (title d1) ''Untitled''))"
  defines "name \<equiv> (if st = [] then ''untitled'' else st) @ ''_'' @ k @ ''.md''"
  shows "written_paths (events_since w1 (snd (write_markdown_for_item item1 abt1 out w1)))
           = [path_join out name]
       \<and> written_paths (events_since w2 (snd (write_markdown_for_item item2 abt2 out w2)))
           = [path_join out name]"
proof -
  have n: "md_filename (get_or (title d1) ''Untitled'') k = name"
    by (simp add: md_filename_def safe_title_def sub_each_def illegal_char_def name_def st_def)
  have "\<And>item d abt ls w. data item = Some d \<Longrightarrow> title d = title d1 \<Longrightarrow> key item = Some k \<Longrightarrow>
      attachment_lines abt = Inr ls \<Longrightarrow>
      written_paths (events_since w (snd (write_markdown_for_item item abt out w)))
        = [path_join out name]"
    using n by (simp add: write_markdown_for_item_def Let_def)
  with assms show ?thesis by metis
qed

lemma attachment_lines_entries0: "\<exists>ls. attachment_lines entries0 = Inr ls"
  by (simp add: entries0_def item_with_def empty_data_def Let_def)

theorem markdown_filename_witness:
  "written_paths (events_since world0
      (snd (write_markdown_for_item (item_with (Some ''K1'') (Some ''book'') (Some ''a/b: c''))
              entries0 ''out'' world0)))
     = [''out/a_b_ c_K1.md'']
   \<and> written_paths (events_since (print StartingBackup world0)
      (snd (write_markdown_for_item (item_with (Some ''K1'') (Some ''note'') (Some ''a/b: c''))
              [] ''out'' (print StartingBackup world0))))
     = [''out/a_b_ c_K1.md'']"
proof -
  obtain ls where ls: "attachment_lines entries0 = Inr ls"
    using attachment_lines_entries0 by blast
  show ?thesis
    using markdown_filename [of "item_with (Some ''K1'') (Some ''book'') (Some ''a/b: c'')"
        "empty_data\<lparr>title := Some ''a/b: c'', itemType := Some ''book''\<rparr>"
        "item_with (Some ''K1'') (Some ''note'') (Some ''a/b: c'')"
        "empty_data\<lparr>title := Some ''a/b: c'', itemType := Some ''note''\<rparr>"
        "''K1''" entries0 ls "[]" "[]" world0 "''out''" "print StartingBackup world0"] ls
    by (simp add: item_with_def get_or_def path_join_def)
qed

text \<open>
  C7 as the specification states it fails: for an item with an empty title and key \<open>K\<close> the
  file is \<open>untitled_K.md\<close>, not the sanitised title followed by the key and \<open>.md\<close>.
\<close>

theorem markdown_filename_counterexample:
  "written_paths (events_since world0
      (snd (write_markdown_for_item (item_with (Some ''K'') (Some ''book'') (Some []))
              entries0 ''out'' world0)))
     = [''out/untitled_K.md'']
   \<and> ''out/untitled_K.md'' \<noteq> path_join ''out'' (safe_title [] @ ''K'' @ ''.md'')"
  using attachment_lines_entries0
  by (auto simp: write_markdown_for_item_def item_with_def get_or_def path_join_def Let_def
        md_filename_def safe_title_def sub_each_def)

section \<open>Missing settings\<close>

text \<open>
  C5. When \<open>ZOTERO_API_KEY\<close> or \<open>ZOTERO_LIBRARY_ID\<close> is unset, the backup command exits with
  status 2; all it does before is print one line, so it sends no request.
\<close>

theorem backup_missing_environment:
  assumes "env ''ZOTERO_API_KEY'' = None \<or> env ''ZOTERO_LIBRARY_ID'' = None"
  shows "backup s env args w = Some (SystemExit 2, print MissingEnvironment w)
       \<and> requests_of (events_since w (print MissingEnvironment w)) = []"
  using assms by (auto simp: backup_def env_get_def truthy_def Let_def)

theorem backup_missing_environment_witness:
  "backup (const_sys (status_reply 200)) Map.empty args0 world0
     = Some (SystemExit 2, print MissingEnvironment world0)
   \<and> backup (const_sys (status_reply 200)) [''ZOTERO_API_KEY'' \<mapsto> ''k''] args0 world0
     = Some (SystemExit 2, print MissingEnvironment world0)"
  using backup_missing_environment [of Map.empty "const_sys (status_reply 200)" args0 world0]
    backup_missing_environment [of "[''ZOTERO_API_KEY'' \<mapsto> ''k'']"
      "const_sys (status_reply 200)" args0 world0]
  by simp

section \<open>Failing requests\<close>

lemma session_get_response:
  "http s (trace w) rq = Response r \<Longrightarrow>
   session_get s rq w = (Inr r, emit (Request rq (Response r)) w)"
  by (simp add: session_get_def Let_def)

lemma session_get_no_response:
  "http s (trace w) rq = NoResponse \<Longrightarrow>
   session_get s rq w = (Inl ConnectionError, emit (Request rq NoResponse) w)"
  by (simp add: session_get_def Let_def)

lemma zb_get_response:
  assumes "http s (trace w) (zb_request zb path ps strm) = Response r"
  shows "zb_get s zb path ps strm w =
     ((if status_code r = 429 then Inl RuntimeError
       else if 400 \<le> status_code r \<and> status_code r < 600 then Inl (HTTPError (status_code r))
       else Inr r), emit (Request (zb_request zb path ps strm) (Response r)) w)"
  using assms by (simp add: zb_get_def session_get_response raise_for_status_def)




section \<open>Downloading an attachment\<close>

lemma candidate_href_none:
  assumes "\<And>n h. n \<in> set cs \<Longrightarrow> map_of lks n = Some (LinkObj (Some h)) \<Longrightarrow> h = []"
  shows "candidate_href cs lks = None"
  using assms
proof (induction cs)
  case Nil
  then show ?case by simp
next
  case (Cons c cs)
  then show ?case
    by (auto split: option.splits link.splits)
qed

lemma first_entry_href_none:
  assumes "\<And>n h rest. lks = (n, LinkObj (Some h)) # rest \<Longrightarrow> h = []"
  shows "first_entry_href lks = None"
  using assms by (auto simp: first_entry_href_def split: list.splits link.splits option.splits)

text \<open>
  C3, as the code has it. Let the links of an attachment hold no entry named \<open>enclosure\<close>,
  \<open>file\<close>, \<open>link\<close> or \<open>attachment\<close> that carries an \<open>href\<close>, and let their first entry carry no
  \<open>href\<close> either. If the file endpoint of the attachment answers with a status other than 200
  and other than 429, then \<open>get_attachment_file\<close> returns \<open>False\<close> without raising, after that
  one request; it writes nothing, so the files are what they were.
\<close>

theorem get_attachment_file_fallback:
  assumes named: "\<And>n h. n \<in> {''enclosure'', ''file'', ''link'', ''attachment''} \<Longrightarrow>
                    map_of (links_or_empty attachment) n = Some (LinkObj (Some h)) \<Longrightarrow> h = []"
    and first: "\<And>n h rest. links_or_empty attachment = (n, LinkObj (Some h)) # rest \<Longrightarrow> h = []"
    and k: "key attachment = Some k" "k \<noteq> []"
    and reply: "http s (trace w) (zb_request zb (''/items/'' @ k @ ''/file'') None True) = Response r"
    and status: "status_code r \<noteq> 200" "status_code r \<noteq> 429"
  shows "get_attachment_file s zb attachment dest_path w =
           (Inr False,
            emit (Request (zb_request zb (''/items/'' @ k @ ''/file'') None True) (Response r)) w)
       \<and> files (snd (get_attachment_file s zb attachment dest_path w)) = files w
       \<and> written_paths (events_since w (snd (get_attachment_file s zb attachment dest_path w))) = []"
proof -
  have "candidate_href [''enclosure'', ''file'', ''link'', ''attachment'']
          (links_or_empty attachment) = None"
    using named by (intro candidate_href_none) auto
  moreover have "first_entry_href (links_or_empty attachment) = None"
    using first by (intro first_entry_href_none) auto
  ultimately have h: "resolve_href attachment = None"
    by (simp add: resolve_href_def)
  have g: "get_attachment_file s zb attachment dest_path w =
           (Inr False,
            emit (Request (zb_request zb (''/items/'' @ k @ ''/file'') None True) (Response r)) w)"
    using h k reply status
    by (simp add: get_attachment_file_def truthy_def str_opt_def zb_get_response)
  show ?thesis
    by (simp add: g)
qed

theorem get_attachment_file_fallback_witness:
  "get_attachment_file file_missing_sys backup0 attachment_plain ''out/attachments/A1/paper.pdf''
     world0
     = (Inr False,
        emit (Request (zb_request backup0 ''/items/A1/file'' None True) (status_reply 404)) world0)"
  using get_attachment_file_fallback [of attachment_plain "''A1''" file_missing_sys world0 backup0
      "response_with 404" "''out/attachments/A1/paper.pdf''"]
  by (simp add: attachment_plain_def links_or_empty_def file_missing_sys_def world0_def
        zb_request_def backup0_def status_reply_def response_with_def)

text \<open>
  C3 as the specification states it fails twice. An attachment whose only link is \<open>self\<close> has
  no \<open>href\<close> under the four names, and its file endpoint answers 404; yet the download follows
  the \<open>href\<close> of the first entry, saves a file and returns \<open>True\<close>. And when the file endpoint
  answers 429, the \<open>RuntimeError\<close> of \<open>_get\<close> is raised.
\<close>

theorem get_attachment_file_fallback_counterexample:
  "map (map_of (links_or_empty attachment_self)) [''enclosure'', ''file'', ''link'', ''attachment'']
     = [None, None, None, None]
   \<and> http file_missing_sys (trace world0) (zb_request backup0 ''/items/A1/file'' None True)
       = status_reply 404
   \<and> fst (get_attachment_file file_missing_sys backup0 attachment_self
            ''out/attachments/A1/paper.pdf'' world0) = Inr True
   \<and> files (snd (get_attachment_file file_missing_sys backup0 attachment_self
                   ''out/attachments/A1/paper.pdf'' world0))
         ''out/attachments/A1/paper.pdf'' = Some (Bytes ''x'')
   \<and> map (map_of (links_or_empty attachment_plain)) [''enclosure'', ''file'', ''link'', ''attachment'']
       = [None, None, None, None]
   \<and> http (const_sys (status_reply 429)) (trace world0)
         (zb_request backup0 ''/items/A1/file'' None True) = status_reply 429
   \<and> fst (get_attachment_file (const_sys (status_reply 429)) backup0 attachment_plain
            ''out/attachments/A1/paper.pdf'' world0) = Inl RuntimeError"
  by (simp add: attachment_self_def attachment_plain_def links_or_empty_def file_missing_sys_def
        const_sys_def world0_def zb_request_def backup0_def status_reply_def response_with_def
        get_attachment_file_def resolve_href_def first_entry_href_def truthy_def str_opt_def
        absolute_href_def download_request_def
        zb_get_def session_get_def raise_for_status_def save_stream_def make_base_url_def
        session_headers_def Let_def)

section \<open>The git snapshot\<close>

lemma git_cmds_distinct [simp]:
  "git_init zb \<noteq> git_rev_parse zb" "git_init zb \<noteq> git_add zb" "git_init zb \<noteq> git_commit zb m"
  "git_add zb \<noteq> git_rev_parse zb" "git_add zb \<noteq> git_commit zb m" "git_add zb \<noteq> git_init zb"
  "git_commit zb m \<noteq> git_rev_parse zb" "git_commit zb m \<noteq> git_add zb" "git_commit zb m \<noteq> git_init zb"
  "git_rev_parse zb \<noteq> git_init zb" "git_rev_parse zb \<noteq> git_add zb" "git_rev_parse zb \<noteq> git_commit zb m"
  by (simp_all add: git_init_def git_rev_parse_def git_add_def git_commit_def)

lemma git_commit_inj [simp]: "git_commit zb m = git_commit zb m' \<longleftrightarrow> m = m'"
  by (simp add: git_commit_def)

lemma is_commit_simps [simp]:
  "is_commit zb (Run (git_commit zb m) r)"
  "\<not> is_commit zb (Run (git_add zb) r)"
  "\<not> is_commit zb (Run (git_init zb) r)"
  "\<not> is_commit zb (Run (git_rev_parse zb) r)"
  by (simp_all add: git_init_def git_rev_parse_def git_add_def git_commit_def)

lemma is_commit_ignore [simp]: "filter (is_commit zb) (ignore_events zb w) = []"
  by (simp add: ignore_events_def)

lemma is_write_ignore [simp]: "filter is_write (ignore_events zb w) = ignore_events zb w"
  by (simp add: ignore_events_def)

lemma run_not_in_ignore [simp]: "Run args r \<notin> set (ignore_events zb w)"
  by (simp add: ignore_events_def)


lemma run_checked_eq:
  "run_checked s args w =
     (case subprocess s (trace w) args of
        NotStarted \<Rightarrow> Inl OSError
      | Exited c \<Rightarrow> if c = 0 then Inr () else Inl (CalledProcessError c),
      emit (Run args (subprocess s (trace w) args)) w)"
  by (simp add: run_checked_def Let_def split: proc_result.splits)

lemma stage_and_commit_shape:
  "fst (stage_and_commit s zb w) =
          (case subprocess s (trace w @ ignore_events zb w) (git_add zb) of NotStarted \<Rightarrow> Inl OSError
            | Exited a \<Rightarrow> if a \<noteq> 0 then Inr ()
                else (case subprocess s (trace w @ ignore_events zb w @ [Run (git_add zb) (Exited 0)])
                        (git_commit zb (commit_message (utcnow s (trace w @ ignore_events zb w @ [Run (git_add zb) (Exited 0)])))) of
                       NotStarted \<Rightarrow> Inl OSError | Exited c \<Rightarrow> Inr ()))
   \<and> trace (snd (stage_and_commit s zb w)) =
       trace w @ ignore_events zb w
         @ Run (git_add zb) (subprocess s (trace w @ ignore_events zb w) (git_add zb))
         # stage_tail s zb (trace w @ ignore_events zb w)
   \<and> files (snd (stage_and_commit s zb w)) =
       (if files w (gitignore_path zb) = None
        then (files w)(gitignore_path zb \<mapsto> Text gitignore_text) else files w)"
  by (auto simp: stage_and_commit_def run_checked_eq ignore_events_def stage_tail_def Let_def
           split: proc_result.splits)



lemma stage_tail_no_commit:
  assumes "subprocess s tr (git_add zb) \<noteq> Exited 0"
  shows "filter (is_commit zb) (stage_tail s zb tr) = []"
  using assms by (auto simp: stage_tail_def Let_def split: proc_result.splits)





lemma maybe_init_and_commit_shape:
  fixes s zb w
  defines "r0 \<equiv> subprocess s (trace w) (git_rev_parse zb)"
  defines "w1 \<equiv> emit (Run (git_rev_parse zb) r0) w"
  defines "w2 \<equiv> print InitializingRepo w1"
  defines "ri \<equiv> subprocess s (trace w2) (git_init zb)"
  defines "w3 \<equiv> emit (Run (git_init zb) ri) w2"
  shows "maybe_init_and_commit s zb w =
     (case r0 of
        NotStarted \<Rightarrow> (Inl OSError, w1)
      | Exited c \<Rightarrow>
          if c = 0 then stage_and_commit s zb w1
          else (case ri of
                  NotStarted \<Rightarrow> (Inr (), print (FailedInit OSError) w3)
                | Exited i \<Rightarrow> if i = 0 then stage_and_commit s zb w3
                              else (Inr (), print (FailedInit (CalledProcessError i)) w3)))"
  unfolding r0_def w1_def w2_def ri_def w3_def
  by (simp add: maybe_init_and_commit_def is_git_repo_def run_checked_eq split: proc_result.splits)





section \<open>Paging through the top-level items\<close>

lemma requests_of_append [simp]: "requests_of (xs @ ys) = requests_of xs @ requests_of ys"
  by (induction xs rule: requests_of.induct) simp_all

lemma written_paths_append [simp]: "written_paths (xs @ ys) = written_paths xs @ written_paths ys"
  by (induction xs rule: written_paths.induct) simp_all

lemma max_sleep_pos: "0 < max_sleep"
  by (simp add: max_sleep_def)

lemma sleep_length_Some:
  "sleep_length d = Some x \<longleftrightarrow> d = Finite x \<and> 0 \<le> x \<and> x < max_sleep"
  by (auto simp: sleep_length_def split: pyfloat.splits)

lemma time_sleep_ok: "sleep_length d = Some x \<Longrightarrow> time_sleep d w = (Inr (), emit (Sleep x) w)"
  using max_sleep_pos by (auto simp: sleep_length_Some time_sleep_def)

lemma time_sleep_raises:
  assumes "sleep_length d = None"
  shows "\<exists>e. \<forall>w. time_sleep d w = (Inl e, w)"
proof (cases d)
  case (Finite x)
  with assms have x: "x < 0 \<or> max_sleep \<le> x"
    by (auto simp: sleep_length_def split: if_splits)
  show ?thesis
  proof (cases "x < - max_sleep \<or> max_sleep \<le> x")
    case True
    then show ?thesis using Finite by (simp add: time_sleep_def)
  next
    case False
    then show ?thesis using Finite x by (auto simp: time_sleep_def)
  qed
qed (simp_all add: time_sleep_def)

lemma zb_get_page_ok:
  assumes "http s (trace w) (zb_request zb path ps strm) = Response r" and "page_ok r"
  shows "zb_get s zb path ps strm w = (Inr r, emit (Request (zb_request zb path ps strm) (Response r)) w)"
  using assms by (auto simp: zb_get_response page_ok_def)

lemma resp_json_page_ok: "page_ok r \<Longrightarrow> resp_json r = Inr (batch_of r)"
  by (auto simp: page_ok_def resp_json_def batch_of_def)

lemma list_all_items_loop_pages:
  assumes sleep: "sleep_length (sleep_between_requests zb) = Some x"
  shows "rs \<noteq> [] \<Longrightarrow> \<forall>r \<in> set rs. page_ok r \<Longrightarrow>
    \<forall>r \<in> set (butlast rs). batch_of r \<noteq> [] \<and> per_page zb \<le> int (length (batch_of r)) \<Longrightarrow>
    batch_of (last rs) = [] \<or> int (length (batch_of (last rs))) < per_page zb \<Longrightarrow>
    (\<And>i tr. i < length rs \<Longrightarrow> length (requests_of tr) = length (requests_of (trace w)) + i \<Longrightarrow>
        http s tr (page_request zb (page_starts start (map batch_of rs) ! i)) = Response (rs ! i)) \<Longrightarrow>
    \<exists>w'. list_all_items_loop s zb items start w = Some (Inr (items @ concat (map batch_of rs)), w')
       \<and> requests_of (events_since w w') = map (page_request zb) (page_starts start (map batch_of rs))
       \<and> (\<exists>es. trace w' = trace w @ es)"
proof (induction rs arbitrary: items start w)
  case Nil
  then show ?case by simp
next
  case (Cons r rs)
  let ?b = "batch_of r"
  let ?rq = "page_request zb start"
  let ?w1 = "emit (Request ?rq (Response r)) w"
  have ok: "page_ok r" using Cons.prems(2) by simp
  have "http s (trace w) ?rq = Response r"
    using Cons.prems(5) [of 0 "trace w"] by simp
  then have get: "zb_get s zb ''/items/top'' (Some (page_params zb start)) False w = (Inr r, ?w1)"
    using ok by (simp add: zb_get_page_ok page_request_def)
  note js = resp_json_page_ok [OF ok]
  show ?case
  proof (cases "rs = []")
    case True
    then have short: "?b = [] \<or> int (length ?b) < per_page zb"
      using Cons.prems(4) by simp
    show ?thesis
    proof (cases "?b = []")
      case e: True
      have "list_all_items_loop s zb items start w = Some (Inr items, ?w1)"
        by (subst list_all_items_loop.simps) (simp add: get js e)
      then show ?thesis using True e by (simp add: events_since_def)
    next
      case ne: False
      let ?w2 = "emit (Sleep x) (print (Fetched (length ?b) start) ?w1)"
      have "list_all_items_loop s zb items start w = Some (Inr (items @ ?b), ?w2)"
        using short ne
        by (subst list_all_items_loop.simps) (simp add: get js time_sleep_ok [OF sleep])
      then show ?thesis using True by (simp add: events_since_def)
    qed
  next
    case False
    then have full: "?b \<noteq> []" "per_page zb \<le> int (length ?b)"
      using Cons.prems(3) by simp_all
    let ?w2 = "emit (Sleep x) (print (Fetched (length ?b) start) ?w1)"
    have step: "list_all_items_loop s zb items start w =
          list_all_items_loop s zb (items @ ?b) (start + int (length ?b)) ?w2"
      using full
      by (subst list_all_items_loop.simps) (simp add: get js time_sleep_ok [OF sleep])
    have p3: "\<forall>r \<in> set (butlast rs). batch_of r \<noteq> [] \<and> per_page zb \<le> int (length (batch_of r))"
      using Cons.prems(3) False by simp
    have p4: "batch_of (last rs) = [] \<or> int (length (batch_of (last rs))) < per_page zb"
      using Cons.prems(4) False by simp
    have p5: "\<And>i tr. i < length rs \<Longrightarrow> length (requests_of tr) = length (requests_of (trace ?w2)) + i \<Longrightarrow>
        http s tr (page_request zb (page_starts (start + int (length ?b)) (map batch_of rs) ! i)) = Response (rs ! i)"
    proof -
      fix i tr
      assume "i < length rs" and "length (requests_of tr) = length (requests_of (trace ?w2)) + i"
      then show "http s tr (page_request zb (page_starts (start + int (length ?b)) (map batch_of rs) ! i)) = Response (rs ! i)"
        using Cons.prems(5) [of "Suc i" tr] by simp
    qed
    have p2: "\<forall>r \<in> set rs. page_ok r" using Cons.prems(2) by simp
    from Cons.IH [where items = "items @ ?b" and start = "start + int (length ?b)" and w = ?w2,
        OF False p2 p3 p4 p5]
    obtain w' es where
      r: "list_all_items_loop s zb (items @ ?b) (start + int (length ?b)) ?w2
            = Some (Inr ((items @ ?b) @ concat (map batch_of rs)), w')"
      and q: "requests_of (events_since ?w2 w') = map (page_request zb) (page_starts (start + int (length ?b)) (map batch_of rs))"
      and t: "trace w' = trace ?w2 @ es"
      by auto
    have "requests_of (events_since w w') = ?rq # requests_of (events_since ?w2 w')"
      using t by (simp add: events_since_def)
    then show ?thesis
      using step r q t by simp
  qed
qed

lemma length_page_starts [simp]: "length (page_starts start bs) = length bs"
  by (induction bs arbitrary: start) simp_all

text \<open>
  C1. Take any sequence of page responses that the server gives to the successive page
  requests: each but the last holds a batch that is not empty and not smaller than
  \<open>per_page\<close>, and the last holds a batch that is empty or smaller than \<open>per_page\<close>. Then
  \<open>list_all_items\<close> returns, its result is the batches joined in order, and the requests it
  made are exactly one page request for each response: the first at offset 0, each next one at
  the previous offset plus the size of the batch returned. Whatever the server would answer
  after the last of them is never asked. The sleep setting is a length that \<open>time.sleep\<close>
  accepts: a finite number of seconds, not negative and below \<open>max_sleep\<close>; with any other
  setting the sleep after the first batch that is not empty raises and nothing is returned.
  For batches of sizes 100, 100 and 37 and \<open>per_page = 100\<close> this gives three requests, at
  offsets 0, 100 and 200, and 237 items.
\<close>

theorem list_all_items_pages:
  assumes sleep: "sleep_between_requests zb = Finite x" "0 \<le> x" "x < max_sleep"
    and nonempty: "rs \<noteq> []"
    and ok: "\<forall>r \<in> set rs. page_ok r"
    and full: "\<forall>r \<in> set (butlast rs). batch_of r \<noteq> [] \<and> per_page zb \<le> int (length (batch_of r))"
    and short: "batch_of (last rs) = [] \<or> int (length (batch_of (last rs))) < per_page zb"
    and server: "\<And>i tr. i < length rs \<Longrightarrow>
        length (requests_of tr) = length (requests_of (trace w)) + i \<Longrightarrow>
        http s tr (page_request zb (page_starts 0 (map batch_of rs) ! i)) = Response (rs ! i)"
  shows "\<exists>w'. list_all_items s zb w = Some (Inr (concat (map batch_of rs)), w')
       \<and> requests_of (events_since w w') = map (page_request zb) (page_starts 0 (map batch_of rs))
       \<and> length (requests_of (events_since w w')) = length rs"
proof -
  have "sleep_length (sleep_between_requests zb) = Some x"
    using sleep by (simp add: sleep_length_Some)
  from list_all_items_loop_pages [where items = "[]" and start = 0, OF this nonempty ok full short server]
  obtain w' where "list_all_items_loop s zb [] 0 w = Some (Inr (concat (map batch_of rs)), w')"
    and "requests_of (events_since w w') = map (page_request zb) (page_starts 0 (map batch_of rs))"
    by auto
  then show ?thesis
    by (auto simp: list_all_items_def)
qed

lemma length_batch [simp]: "length (batch k n) = n"
  by (simp add: batch_def)

theorem list_all_items_pages_witness:
  "map_option fst (list_all_items
       (stub_sys [ok_response (batch 0 100), ok_response (batch 100 100), ok_response (batch 200 37)])
       backup0 world0)
     = Some (Inr (batch 0 100 @ batch 100 100 @ batch 200 37))
   \<and> map_option (\<lambda>p. requests_of (events_since world0 (snd p))) (list_all_items
       (stub_sys [ok_response (batch 0 100), ok_response (batch 100 100), ok_response (batch 200 37)])
       backup0 world0)
     = Some [page_request backup0 0, page_request backup0 100, page_request backup0 200]
   \<and> length (batch 0 100 @ batch 100 100 @ batch 200 37) = 237"
proof -
  let ?rs = "[ok_response (batch 0 100), ok_response (batch 100 100), ok_response (batch 200 37)]"
  have b: "batch_of (ok_response (batch 0 100)) = batch 0 100"
    "batch_of (ok_response (batch 100 100)) = batch 100 100"
    "batch_of (ok_response (batch 200 37)) = batch 200 37"
    by (simp_all add: batch_of_def ok_response_def)
  have 1: "sleep_between_requests backup0 = Finite (1 / 2)" "(0::real) \<le> 1 / 2" "1 / 2 < max_sleep"
    by (simp_all add: backup0_def max_sleep_def)
  have 2: "?rs \<noteq> []" by simp
  have 3: "\<forall>r \<in> set ?rs. page_ok r" by (simp add: page_ok_def ok_response_def)
  have 4: "\<forall>r \<in> set (butlast ?rs). batch_of r \<noteq> [] \<and> per_page backup0 \<le> int (length (batch_of r))"
    by (simp add: b backup0_def) (simp add: batch_def)
  have 5: "batch_of (last ?rs) = [] \<or> int (length (batch_of (last ?rs))) < per_page backup0"
    by (simp add: b backup0_def)
  have 6: "\<And>i tr. i < length ?rs \<Longrightarrow>
        length (requests_of tr) = length (requests_of (trace world0)) + i \<Longrightarrow>
        http (stub_sys ?rs) tr (page_request backup0 (page_starts 0 (map batch_of ?rs) ! i)) = Response (?rs ! i)"
    by (simp add: stub_sys_def world0_def)
  from list_all_items_pages [OF 1 2 3 4 5 6] obtain w' where
    "list_all_items (stub_sys ?rs) backup0 world0 = Some (Inr (concat (map batch_of ?rs)), w')"
    "requests_of (events_since world0 w') = map (page_request backup0) (page_starts 0 (map batch_of ?rs))"
    by blast
  then show ?thesis
    by (simp add: b)
qed

section \<open>The Markdown export skips items without annotations\<close>

lemma filter_type_ok:
  "list_all (\<lambda>i. data i \<noteq> None) js \<Longrightarrow> filter_type t js = Inr (filter (\<lambda>i. item_type i = Some t) js)"
  by (induction js) (auto simp: item_type_def)

lemma query_children_library:
  assumes "http s (trace w) (children_url c k) = Response (lib k)" and "page_ok (lib k)"
    and "list_all (\<lambda>i. data i \<noteq> None) (batch_of (lib k))"
  shows "query_children s c t k w =
           (Inr (filter (\<lambda>i. item_type i = Some t) (batch_of (lib k))),
            emit (Request (children_url c k) (Response (lib k))) w)"
  using assms
  by (auto simp: query_children_def children_url_def session_get_response raise_for_status_def
        page_ok_def resp_json_def batch_of_def filter_type_ok)

lemma annotation_lines_ok:
  "list_all (\<lambda>i. data i \<noteq> None) anns \<Longrightarrow> \<exists>ls. annotation_lines n anns = Inr ls"
proof (induction anns arbitrary: n)
  case Nil
  then show ?case by simp
next
  case (Cons a anns)
  then obtain d where d: "data a = Some d" by auto
  from Cons obtain ls where "annotation_lines (Suc n) anns = Inr ls" by fastforce
  then show ?case using d by (simp add: Let_def)
qed

lemma attachment_lines_ok:
  "entries_ok es \<Longrightarrow> \<exists>ls. attachment_lines es = Inr ls"
proof (induction es)
  case Nil
  then show ?case by simp
next
  case (Cons e es)
  obtain k a anns where e: "e = (k, a, anns)" by (cases e)
  from Cons e obtain d where d: "data a = Some d" by (auto simp: entries_ok_def)
  from Cons e obtain ls where ls: "annotation_lines 0 anns = Inr ls"
    using annotation_lines_ok [of anns 0] by (auto simp: entries_ok_def)
  from Cons obtain ls' where "attachment_lines es = Inr ls'" by (auto simp: entries_ok_def)
  then show ?case using e d ls by simp
qed

lemma entries_ok_update:
  "entries_ok es \<Longrightarrow> data a \<noteq> None \<Longrightarrow> list_all (\<lambda>i. data i \<noteq> None) anns \<Longrightarrow>
   entries_ok (AList.update k (a, anns) es)"
  by (induction es) (auto simp: entries_ok_def)

lemma update_nonempty [simp]: "AList.update k v al \<noteq> []"
  by (cases al) auto

lemma collect_annotations_library:
  assumes lib: "\<And>tr k. http s tr (children_url c k) = Response (lib k)" "\<And>k. page_ok (lib k)"
  shows "list_all (\<lambda>att. key att \<noteq> None \<and> data att \<noteq> None
                    \<and> list_all (\<lambda>i. data i \<noteq> None) (batch_of (lib (str_opt (key att))))) atts \<Longrightarrow>
    entries_ok acc \<Longrightarrow>
    \<exists>abt w'. collect_annotations s c atts acc w = (Inr abt, w')
       \<and> (abt = [] \<longleftrightarrow> acc = [] \<and> (\<forall>att \<in> set atts. annotations_of lib att = []))
       \<and> entries_ok abt
       \<and> files w' = files w
       \<and> (\<exists>es. trace w' = trace w @ es \<and> filter is_write es = []
               \<and> (\<forall>m. Print m \<notin> set es))"
proof (induction atts arbitrary: acc w)
  case Nil
  then show ?case by simp
next
  case (Cons att atts)
  then obtain k where k: "key att = Some k" by auto
  let ?anns = "annotations_of lib att"
  let ?w1 = "emit (Request (children_url c k) (Response (lib k))) w"
  let ?acc = "if ?anns \<noteq> [] then AList.update k (att, ?anns) acc else acc"
  have wf: "list_all (\<lambda>i. data i \<noteq> None) (batch_of (lib k))"
    using Cons.prems(1) k by (simp add: str_opt_def)
  have q: "query_annotations s c k w = (Inr ?anns, ?w1)"
    using query_children_library [where s = s and c = c and lib = lib and k = k and w = w
        and t = "''annotation''", OF lib(1) lib(2) wf] k
    by (simp add: query_annotations_def annotations_of_def str_opt_def)
  have step: "collect_annotations s c (att # atts) acc w = collect_annotations s c atts ?acc ?w1"
    using k q by simp
  have "list_all (\<lambda>i. data i \<noteq> None) ?anns"
    using wf k by (simp add: annotations_of_def str_opt_def list_all_iff)
  then have ok: "entries_ok ?acc"
    using Cons.prems entries_ok_update by auto
  have rest: "list_all (\<lambda>att. key att \<noteq> None \<and> data att \<noteq> None
                    \<and> list_all (\<lambda>i. data i \<noteq> None) (batch_of (lib (str_opt (key att))))) atts"
    using Cons.prems(1) by simp
  from Cons.IH [OF rest ok, of ?w1] obtain abt w' es where
    r: "collect_annotations s c atts ?acc ?w1 = (Inr abt, w')"
    and e: "abt = [] \<longleftrightarrow> ?acc = [] \<and> (\<forall>att \<in> set atts. annotations_of lib att = [])"
    and o: "entries_ok abt" and f: "files w' = files ?w1"
    and t: "trace w' = trace ?w1 @ es" "filter is_write es = []" "\<forall>m. Print m \<notin> set es"
    by blast
  have "trace w' = trace w @ (Request (children_url c k) (Response (lib k)) # es)"
    using t by simp
  moreover have "filter is_write (Request (children_url c k) (Response (lib k)) # es) = []"
    using t by simp
  moreover have "\<forall>m. Print m \<notin> set (Request (children_url c k) (Response (lib k)) # es)"
    using t by simp
  moreover have "abt = [] \<longleftrightarrow> acc = [] \<and> (\<forall>a \<in> set (att # atts). annotations_of lib a = [])"
    using e by auto
  ultimately show ?case
    using step r o f by (metis files_emit)
qed

lemma printed_append [simp]: "printed (xs @ ys) = printed xs @ printed ys"
  by (induction xs rule: printed.induct) simp_all

lemma written_paths_no_write: "filter is_write es = [] \<Longrightarrow> written_paths es = []"
  by (induction es rule: written_paths.induct) simp_all

lemma printed_no_print: "\<forall>m. Print m \<notin> set es \<Longrightarrow> printed es = []"
  by (induction es rule: printed.induct) auto

lemma export_item_library:
  assumes lib: "\<And>tr k. http s tr (children_url c k) = Response (lib k)" "\<And>k. page_ok (lib k)"
    and k: "key item = Some k" and d: "data item = Some d"
    and wf: "well_formed lib k"
  shows "\<exists>w' es. export_item s c out item w = (Inr (), w') \<and> trace w' = trace w @ es
       \<and> written_paths es = (if annotated lib k then [md_path out item] else [])
       \<and> printed es = [item_report lib out item]
       \<and> (\<not> annotated lib k \<longrightarrow> files w' = files w)"
proof -
  let ?atts = "attachments_of lib k"
  let ?w1 = "emit (Request (children_url c k) (Response (lib k))) w"
  have wf1: "list_all (\<lambda>i. data i \<noteq> None) (batch_of (lib k))"
    using wf by (simp add: well_formed_def)
  have q: "query_attachments s c k w = (Inr ?atts, ?w1)"
    using query_children_library [where s = s and c = c and lib = lib and k = k and w = w
        and t = "''attachment''", OF lib(1) lib(2) wf1]
    by (simp add: query_attachments_def attachments_of_def)
  have wf2: "list_all (\<lambda>att. key att \<noteq> None \<and> data att \<noteq> None
                    \<and> list_all (\<lambda>i. data i \<noteq> None) (batch_of (lib (str_opt (key att))))) ?atts"
    using wf wf1 by (auto simp: well_formed_def attachments_of_def list_all_iff)
  have "entries_ok []" by (simp add: entries_ok_def)
  from collect_annotations_library [where s = s and c = c and lib = lib and w = ?w1,
      OF lib(1) lib(2) wf2 this]
  obtain abt w2 es where
    c: "collect_annotations s c ?atts [] ?w1 = (Inr abt, w2)"
    and e: "abt = [] \<longleftrightarrow> (\<forall>att \<in> set ?atts. annotations_of lib att = [])"
    and o: "entries_ok abt" and f: "files w2 = files ?w1"
    and t: "trace w2 = trace ?w1 @ es" "filter is_write es = []" "\<forall>m. Print m \<notin> set es"
    by auto
  have ann: "annotated lib k \<longleftrightarrow> abt \<noteq> []"
    using e by (auto simp: annotated_def list_ex_iff)
  have tr2: "trace w2 = trace w @ (Request (children_url c k) (Response (lib k)) # es)"
    using t by simp
  have nw: "written_paths (Request (children_url c k) (Response (lib k)) # es) = []"
    using t by (simp add: written_paths_no_write)
  have np: "printed (Request (children_url c k) (Response (lib k)) # es) = []"
    using t by (simp add: printed_no_print)
  show ?thesis
  proof (cases "abt = []")
    case True
    then have "export_item s c out item w = (Inr (), print (NoAnnotationsFound (title d)) w2)"
      using k d q c by (simp add: export_item_def)
    moreover have "item_report lib out item = NoAnnotationsFound (title d)"
      using True ann k d by (simp add: item_report_def item_title_def str_opt_def)
    ultimately show ?thesis
      using True ann tr2 nw np f
      by (intro exI [of _ "print (NoAnnotationsFound (title d)) w2"]
            exI [of _ "(Request (children_url c k) (Response (lib k)) # es) @ [Print (NoAnnotationsFound (title d))]"])
         (simp del: append_Cons)
  next
    case False
    from attachment_lines_ok [OF o] obtain ls where ls: "attachment_lines abt = Inr ls" by blast
    let ?p = "md_path out item"
    have p: "path_join out (md_filename (get_or (title d) ''Untitled'') k) = ?p"
      using k d by (simp add: md_path_def item_title_def str_opt_def)
    obtain body where
      "write_markdown_for_item item abt out w2 =
         (Inr (), print (Wrote (path_name ?p)) (write_file ?p (Text body) w2))"
      using k d ls p by (simp add: write_markdown_for_item_def Let_def)
    then have x: "export_item s c out item w =
         (Inr (), print (Wrote (path_name ?p)) (write_file ?p (Text body) w2))"
      using k d q c False by (simp add: export_item_def)
    have "item_report lib out item = Wrote (path_name ?p)"
      using False ann k by (simp add: item_report_def str_opt_def)
    then show ?thesis
      using False ann tr2 nw np x
      by (intro exI [of _ "print (Wrote (path_name ?p)) (write_file ?p (Text body) w2)"]
            exI [of _ "(Request (children_url c k) (Response (lib k)) # es) @ [Write ?p (Text body), Print (Wrote (path_name ?p))]"])
         (simp del: append_Cons)
  qed
qed

lemma export_items_library:
  assumes lib: "\<And>tr k. http s tr (children_url c k) = Response (lib k)" "\<And>k. page_ok (lib k)"
  shows "list_all (\<lambda>item. key item \<noteq> None \<and> data item \<noteq> None
                     \<and> well_formed lib (str_opt (key item))) items \<Longrightarrow>
    \<exists>w' es. export_items s c out items w = (Inr (), w') \<and> trace w' = trace w @ es
       \<and> written_paths es =
           map (md_path out) (filter (\<lambda>item. annotated lib (str_opt (key item))) items)
       \<and> printed es = map (item_report lib out) items"
proof (induction items arbitrary: w)
  case Nil
  then show ?case by simp
next
  case (Cons item items)
  then obtain k d where k: "key item = Some k" and d: "data item = Some d"
    and wf: "well_formed lib k"
    by (auto simp: str_opt_def)
  from export_item_library [where s = s and c = c and lib = lib and w = w and out = out,
      OF lib(1) lib(2) k d wf]
  obtain w1 es1 where
    1: "export_item s c out item w = (Inr (), w1)" "trace w1 = trace w @ es1"
       "written_paths es1 = (if annotated lib k then [md_path out item] else [])"
       "printed es1 = [item_report lib out item]"
    by blast
  from Cons obtain w2 es2 where
    2: "export_items s c out items w1 = (Inr (), w2)" "trace w2 = trace w1 @ es2"
       "written_paths es2 =
           map (md_path out) (filter (\<lambda>item. annotated lib (str_opt (key item))) items)"
       "printed es2 = map (item_report lib out) items"
    by fastforce
  have "export_items s c out (item # items) w = (Inr (), w2)"
    using 1 2 by simp
  moreover have "trace w2 = trace w @ (es1 @ es2)"
    using 1 2 by simp
  moreover have "written_paths (es1 @ es2) =
      map (md_path out) (filter (\<lambda>item. annotated lib (str_opt (key item))) (item # items))"
    using 1 2 k by (simp add: str_opt_def)
  moreover have "printed (es1 @ es2) = map (item_report lib out) (item # items)"
    using 1 2 by simp
  ultimately show ?case by blast
qed

text \<open>
  C4. Let the server show one library throughout the export: the children of every item and
  attachment are the same whenever they are asked for, they have \<open>data\<close>, and the items and
  attachments have keys. Then the export command finishes normally, and over the top-level
  items in the order the server listed them: the files it writes are exactly the Markdown
  files of the items that have at least one attachment with at least one annotation, one for
  each; and it prints one line for each item, the name of the file written for such an item
  and the skip notice for every other item.
\<close>

theorem export_skips_unannotated:
  assumes lib: "\<And>tr k. http s tr (children_url c k) = Response (lib k)"
    and ok: "\<And>k. page_ok (lib k)"
    and client: "ZoteroClient env = Inr c"
    and top: "http s (trace w @ [Mkdir (export_output_dir args)])
                (client_request c (base_url c @ ''/items/top'') [(''limit'', PInt (export_limit args))])
              = Response r"
    and top_ok: "page_ok r"
    and items: "list_all (\<lambda>item. key item \<noteq> None \<and> data item \<noteq> None
                     \<and> well_formed lib (str_opt (key item))) (batch_of r)"
  shows "fst (export s env args w) = Inr ()
       \<and> written_paths (events_since w (snd (export s env args w))) =
           map (md_path (export_output_dir args))
             (filter (\<lambda>item. annotated lib (str_opt (key item))) (batch_of r))
       \<and> printed (events_since w (snd (export s env args w))) =
           Found (length (batch_of r)) # map (item_report lib (export_output_dir args)) (batch_of r)"
proof -
  let ?out = "export_output_dir args"
  let ?rq = "client_request c (base_url c @ ''/items/top'') [(''limit'', PInt (export_limit args))]"
  let ?w0 = "ensure_dir ?out w"
  let ?w1 = "emit (Request ?rq (Response r)) ?w0"
  let ?w2 = "print (Found (length (batch_of r))) ?w1"
  have q: "query_items s c True (export_limit args) ?w0 = (Inr (batch_of r), ?w1)"
    using top top_ok
    by (auto simp: query_items_def session_get_response raise_for_status_def page_ok_def
          resp_json_def batch_of_def)
  from export_items_library [where s = s and c = c and lib = lib and w = ?w2 and out = ?out,
      OF lib ok items]
  obtain w' es where
    e: "export_items s c ?out (batch_of r) ?w2 = (Inr (), w')" "trace w' = trace ?w2 @ es"
       "written_paths es = map (md_path ?out)
             (filter (\<lambda>item. annotated lib (str_opt (key item))) (batch_of r))"
       "printed es = map (item_report lib ?out) (batch_of r)"
    by blast
  have x: "export s env args w = (Inr (), w')"
    using client q e by (simp add: export_def Let_def)
  have "trace w' = trace w @ ([Mkdir ?out, Request ?rq (Response r), Print (Found (length (batch_of r)))] @ es)"
    using e by simp
  then have "events_since w w' = [Mkdir ?out, Request ?rq (Response r), Print (Found (length (batch_of r)))] @ es"
    by (rule events_since_append)
  then show ?thesis
    using x e by simp
qed

lemma ZoteroClient_env0: "ZoteroClient env0 = Inr client0"
  by (simp add: ZoteroClient_def env0_def client0_def env_get_def get_or_def Let_def)

lemma children_url_eq [simp]: "children_url c k = children_url c k' \<longleftrightarrow> k = k'"
  by (simp add: children_url_def client_request_def)

lemma library_sys_children:
  "http library_sys tr (children_url client0 k) = Response (library0 k)"
  by (simp add: library_sys_def library0_def)
     (simp add: children_url_def client_request_def top_request0_def)

theorem export_skips_unannotated_witness:
  "fst (export library_sys env0 export_args0 world0) = Inr ()
   \<and> written_paths (events_since world0 (snd (export library_sys env0 export_args0 world0)))
       = [''notes/First_I1.md'']
   \<and> printed (events_since world0 (snd (export library_sys env0 export_args0 world0)))
       = [Found 2, Wrote ''First_I1.md'', NoAnnotationsFound (Some ''Second'')]"
proof -
  have ok: "\<And>k. page_ok (library0 k)"
    by (simp add: library0_def page_ok_def ok_response_def)
  have top: "http library_sys (trace world0 @ [Mkdir (export_output_dir export_args0)])
                (client_request client0 (base_url client0 @ ''/items/top'')
                   [(''limit'', PInt (export_limit export_args0))])
              = Response (ok_response top_items0)"
    by (simp add: library_sys_def top_request0_def export_args0_def)
  have top_ok: "page_ok (ok_response top_items0)"
    by (simp add: page_ok_def ok_response_def)
  have b: "batch_of (ok_response top_items0) = top_items0"
    by (simp add: batch_of_def ok_response_def)
  have ann: "annotated library0 ''I1''" "\<not> annotated library0 ''I2''"
    by (simp_all add: annotated_def attachments_of_def annotations_of_def library0_def
          batch_of_def ok_response_def item_type_def item_with_def empty_data_def str_opt_def)
  have wf: "well_formed library0 ''I1''" "well_formed library0 ''I2''"
    by (simp_all add: well_formed_def attachments_of_def library0_def
          batch_of_def ok_response_def item_type_def item_with_def empty_data_def str_opt_def)
  have items: "list_all (\<lambda>item. key item \<noteq> None \<and> data item \<noteq> None
                     \<and> well_formed library0 (str_opt (key item))) (batch_of (ok_response top_items0))"
    using wf unfolding b by (simp add: top_items0_def item_with_def str_opt_def)
  let ?i1 = "item_with (Some ''I1'') (Some ''book'') (Some ''First'')"
  let ?i2 = "item_with (Some ''I2'') (Some ''book'') (Some ''Second'')"
  have k: "str_opt (key ?i1) = ''I1''" "str_opt (key ?i2) = ''I2''"
    by (simp_all add: item_with_def str_opt_def)
  have p: "md_path ''notes'' ?i1 = ''notes/First_I1.md''"
    by (simp add: md_path_def item_title_def item_with_def empty_data_def get_or_def str_opt_def
          path_join_def md_filename_def safe_title_def sub_each_def illegal_char_def)
  have n: "path_name ''notes/First_I1.md'' = ''First_I1.md''"
    by (simp add: path_name_def)
  have t: "item_title ?i2 = Some ''Second''"
    by (simp add: item_title_def item_with_def empty_data_def)
  have f: "filter (\<lambda>item. annotated library0 (str_opt (key item))) top_items0 = [?i1]"
    unfolding top_items0_def using ann k by simp
  have m: "map (item_report library0 ''notes'') top_items0
             = [Wrote ''First_I1.md'', NoAnnotationsFound (Some ''Second'')]"
    unfolding top_items0_def using ann k p n t by (simp add: item_report_def)
  have o: "export_output_dir export_args0 = ''notes''"
    by (simp add: export_args0_def)
  have l: "length top_items0 = 2"
    by (simp add: top_items0_def)
  show ?thesis
    using export_skips_unannotated [where s = library_sys and c = client0 and lib = library0
        and env = env0 and w = world0 and args = export_args0 and r = "ok_response top_items0",
        OF library_sys_children ok ZoteroClient_env0 top top_ok items]
    unfolding b o f m l
    using p by simp
qed

section \<open>How a run extends the world\<close>

lemma slept_append: "slept d xs \<Longrightarrow> slept d (xs @ ys)"
  by (induction d xs rule: slept.induct) simp_all

lemma paced_append: "paced d xs \<Longrightarrow> paced d ys \<Longrightarrow> paced d (xs @ ys)"
  by (induction xs) (simp_all add: slept_append)

lemma paced_no_owe: "\<forall>e \<in> set es. \<not> owes_sleep e \<Longrightarrow> paced d es"
  by (induction es) simp_all

lemma owes_sleep_simps [simp]:
  "\<not> owes_sleep (Sleep x)" "\<not> owes_sleep (Print m)" "\<not> owes_sleep (Mkdir p)"
  "\<not> owes_sleep (Write p c)" "\<not> owes_sleep (Run a r)" "\<not> owes_sleep (Request rq NoResponse)"
  "stream rq \<Longrightarrow> \<not> owes_sleep (Request rq rp)"
  by (simp_all add: owes_sleep_def split: reply.splits)

lemma paced_by_append: "paced_by d xs \<Longrightarrow> paced_by d ys \<Longrightarrow> paced_by d (xs @ ys)"
  by (simp add: paced_by_def paced_append split: option.splits)

lemma paced_by_no_owe: "\<forall>e \<in> set es. \<not> owes_sleep e \<Longrightarrow> paced_by d es"
  by (simp add: paced_by_def paced_no_owe split: option.splits)

lemma paced_by_accepted: "sleep_length d = Some x \<Longrightarrow> paced_by d es = paced x es"
  by (simp add: paced_by_def)

lemma extends_refl [simp]: "extends Q d w w"
  by (simp add: extends_def paced_by_no_owe)

lemma extends_trans: "extends Q d w w1 \<Longrightarrow> extends Q d w1 w2 \<Longrightarrow> extends Q d w w2"
proof -
  assume "extends Q d w w1" and "extends Q d w1 w2"
  then obtain es1 es2 where
    1: "trace w1 = trace w @ es1" "paced_by d es1" "list_all Q es1"
       "\<forall>p. p \<notin> set (written_paths es1) \<longrightarrow> files w1 p = files w p"
       "\<forall>p \<in> set (written_paths es1). files w1 p \<noteq> None"
    and 2: "trace w2 = trace w1 @ es2" "paced_by d es2" "list_all Q es2"
       "\<forall>p. p \<notin> set (written_paths es2) \<longrightarrow> files w2 p = files w1 p"
       "\<forall>p \<in> set (written_paths es2). files w2 p \<noteq> None"
    unfolding extends_def by blast
  have "trace w2 = trace w @ (es1 @ es2)" using 1 2 by simp
  moreover have "paced_by d (es1 @ es2)" using 1 2 by (simp add: paced_by_append)
  moreover have "list_all Q (es1 @ es2)" using 1 2 by simp
  moreover have "\<forall>p. p \<notin> set (written_paths (es1 @ es2)) \<longrightarrow> files w2 p = files w p"
    using 1 2 by simp
  moreover have "\<forall>p \<in> set (written_paths (es1 @ es2)). files w2 p \<noteq> None"
    using 1 2 by (metis Un_iff set_append written_paths_append)
  ultimately show ?thesis unfolding extends_def by blast
qed

lemma extends_mono: "extends Q d w w' \<Longrightarrow> (\<And>e. Q e \<Longrightarrow> Q' e) \<Longrightarrow> extends Q' d w w'"
  unfolding extends_def by (metis (mono_tags, lifting) list_all_iff)

lemma extends_emit:
  "\<not> owes_sleep e \<Longrightarrow> Q e \<Longrightarrow> \<not> is_write e \<Longrightarrow> extends Q d w (emit e w)"
  unfolding extends_def
  by (intro exI [of _ "[e]"]) (cases e; simp add: paced_by_no_owe)

lemma extends_print: "Q (Print m) \<Longrightarrow> extends Q d w (print m w)"
  by (simp add: print_def extends_emit)

lemma extends_ensure_dir: "Q (Mkdir p) \<Longrightarrow> extends Q d w (ensure_dir p w)"
  by (simp add: ensure_dir_def extends_emit)

lemma extends_write_file: "Q (Write p c) \<Longrightarrow> extends Q d w (write_file p c w)"
  unfolding extends_def
  by (intro exI [of _ "[Write p c]"]) (simp add: paced_by_no_owe)

lemma extends_request_sleep:
  "sleep_length d = Some x \<Longrightarrow> Q (Request rq rp) \<Longrightarrow> Q (Sleep x) \<Longrightarrow>
   extends Q d w (emit (Sleep x) (emit (Request rq rp) w))"
  unfolding extends_def
  by (intro exI [of _ "[Request rq rp, Sleep x]"]) (simp add: paced_by_def)

lemma extends_refused:
  "sleep_length d = None \<Longrightarrow> Q (Request rq rp) \<Longrightarrow> extends Q d w (emit (Request rq rp) w)"
  unfolding extends_def
  by (intro exI [of _ "[Request rq rp]"]) (simp add: paced_by_def)

lemma extends_request:
  "\<not> owes_sleep (Request rq rp) \<Longrightarrow> Q (Request rq rp) \<Longrightarrow> extends Q d w (emit (Request rq rp) w)"
  by (simp add: extends_emit)

lemma extends_page:
  "sleep_length d = Some x \<Longrightarrow> Q (Request rq rp) \<Longrightarrow> Q (Print m) \<Longrightarrow> Q (Sleep x) \<Longrightarrow>
   extends Q d w (emit (Sleep x) (print m (emit (Request rq rp) w)))"
  unfolding extends_def
  by (intro exI [of _ "[Request rq rp, Print m, Sleep x]"]) (simp add: paced_by_def)

lemma fetch_event_simps [simp]:
  "fetch_event (Sleep x)" "fetch_event (Mkdir p)" "fetch_event (Write p c)"
  "fetch_event (Request rq rp)" "m \<noteq> BackupComplete \<Longrightarrow> fetch_event (Print m)"
  by (simp_all add: fetch_event_def)

lemma item_event_simps [simp]:
  "item_event (Sleep x)" "item_event (Mkdir p)" "item_event (Write p c)"
  "m \<noteq> BackupComplete \<Longrightarrow> item_event (Print m)"
  "stream rq \<Longrightarrow> item_event (Request rq rp)"
  "item_event (Request (children_request zb k) rp)"
  by (simp_all add: item_event_def empty_page_def children_request_def zb_request_def
        API_VERSION_def Let_def split: reply.splits)

lemma item_event_fetch: "item_event e \<Longrightarrow> fetch_event e"
  by (simp add: item_event_def)

lemma download_step_simps [simp]:
  "download_step (Request rq rp) = stream rq" "download_step (Write p (Bytes b))"
  "m \<noteq> BackupComplete \<Longrightarrow> download_step (Print m)"
  by (simp_all add: download_step_def)

lemma download_step_item: "download_step e \<Longrightarrow> item_event e"
  by (cases e) (simp_all add: download_step_def)


lemma time_sleep_cases:
  obtains (accepted) x where "sleep_length d = Some x"
                             "\<And>w. time_sleep d w = (Inr (), emit (Sleep x) w)"
  | (refused) e where "sleep_length d = None" "\<And>w. time_sleep d w = (Inl e, w)"
proof (cases "sleep_length d")
  case None
  from time_sleep_raises [OF None] obtain e where "\<forall>w. time_sleep d w = (Inl e, w)"
    by blast
  then show ?thesis using None refused [of e] by simp
next
  case (Some x)
  then show ?thesis using accepted [of x] by (simp add: time_sleep_ok)
qed

lemma zb_get_cases:
  obtains (ok) r where "zb_get s zb path ps strm w =
                          (Inr r, emit (Request (zb_request zb path ps strm) (Response r)) w)"
                       "\<not> (400 \<le> status_code r \<and> status_code r < 600)"
  | (fail) e rp where "zb_get s zb path ps strm w =
                          (Inl e, emit (Request (zb_request zb path ps strm) rp) w)"
                      "\<forall>r. rp = Response r \<longrightarrow> \<not> page_ok r"
proof (cases "http s (trace w) (zb_request zb path ps strm)")
  case NoResponse
  then show ?thesis
    using fail [of ConnectionError NoResponse]
    by (simp add: zb_get_def session_get_no_response)
next
  case (Response r)
  show ?thesis
  proof (cases "400 \<le> status_code r \<and> status_code r < 600")
    case True
    then show ?thesis
      using Response fail [of "if status_code r = 429 then RuntimeError else HTTPError (status_code r)" "Response r"]
      by (auto simp: zb_get_response page_ok_def)
  next
    case False
    then show ?thesis
      using Response ok [of r] by (auto simp: zb_get_response)
  qed
qed

lemma get_item_children_cases:
  obtains (ok) r where "get_item_children s zb k w =
                          (Inr (batch_of r), emit (Request (children_request zb k) (Response r)) w)"
  | (fail) e rp where "get_item_children s zb k w =
                          (Inl e, emit (Request (children_request zb k) rp) w)"
                      "\<not> owes_sleep (Request (children_request zb k) rp)"
proof (cases rule: zb_get_cases [where s = s and zb = zb and path = "''/items/'' @ k @ ''/children''"
      and ps = None and strm = False and w = w])
  case (ok r)
  show ?thesis
  proof (cases "json_body r")
    case None
    then show ?thesis
      using ok fail [of JSONDecodeError "Response r"]
      by (simp add: get_item_children_def resp_json_def children_request_def owes_sleep_def page_ok_def)
  next
    case (Some b)
    then show ?thesis
      using ok(1) that(1) [of r]
      by (simp add: get_item_children_def resp_json_def children_request_def batch_of_def)
  qed
next
  case (fail e rp)
  then show ?thesis
    using that(2) [of e rp]
    by (auto simp: get_item_children_def children_request_def owes_sleep_def split: reply.splits)
qed

lemma fetch_annotations_extends:
  "extends item_event (sleep_between_requests zb) w (fetch_annotations s zb k w)"
proof (cases rule: get_item_children_cases [where s = s and zb = zb and k = k and w = w])
  case (ok r)
  let ?d = "sleep_between_requests zb"
  let ?w1 = "emit (Request (children_request zb k) (Response r)) w"
  show ?thesis
  proof (cases rule: time_sleep_cases [where d = ?d])
    case (accepted x)
    let ?w2 = "emit (Sleep x) ?w1"
    have 1: "extends item_event ?d w ?w2"
      using accepted(1) by (rule extends_request_sleep) simp_all
    have "fetch_annotations s zb k w =
            (if batch_of r \<noteq> [] then
               print (SavedAnnotations (length (batch_of r)))
                 (write_file (path_join (annotations_dir zb) (k @ ''.json'')) (JsonItems (batch_of r)) ?w2)
             else ?w2)"
      using ok accepted(2) by (simp add: fetch_annotations_def)
    moreover have "extends item_event ?d ?w2 (print (SavedAnnotations (length (batch_of r)))
                 (write_file (path_join (annotations_dir zb) (k @ ''.json'')) (JsonItems (batch_of r)) ?w2))"
      by (rule extends_trans [OF extends_write_file extends_print]) simp_all
    ultimately show ?thesis
      using 1 by (auto intro: extends_trans)
  next
    case (refused e)
    have "fetch_annotations s zb k w = print (FailedChildren k e) ?w1"
      using ok refused(2) by (simp add: fetch_annotations_def)
    moreover have "extends item_event ?d w ?w1"
      using refused(1) by (rule extends_refused) simp
    moreover have "extends item_event ?d ?w1 (print (FailedChildren k e) ?w1)"
      by (simp add: extends_print)
    ultimately show ?thesis
      by (auto intro: extends_trans)
  qed
next
  case (fail e rp)
  let ?d = "sleep_between_requests zb"
  let ?w1 = "emit (Request (children_request zb k) rp) w"
  have "fetch_annotations s zb k w = print (FailedChildren k e) ?w1"
    using fail by (simp add: fetch_annotations_def)
  moreover have "extends item_event ?d w ?w1"
    using fail(2) by (simp add: extends_request)
  moreover have "extends item_event ?d ?w1 (print (FailedChildren k e) ?w1)"
    by (simp add: extends_print)
  ultimately show ?thesis
    by (auto intro: extends_trans)
qed

lemma get_attachment_file_extends:
  "extends download_step d w (snd (get_attachment_file s zb attachment dest_path w))"
proof (cases "resolve_href attachment")
  case None
  show ?thesis
  proof (cases "truthy (key attachment)")
    case False
    with None show ?thesis by (simp add: get_attachment_file_def)
  next
    case True
    let ?path = "''/items/'' @ str_opt (key attachment) @ ''/file''"
    show ?thesis
    proof (cases rule: zb_get_cases [where s = s and zb = zb and path = ?path
          and ps = None and strm = True and w = w])
      case (ok r)
      let ?w1 = "emit (Request (zb_request zb ?path None True) (Response r)) w"
      have s: "stream (zb_request zb ?path None True)" by (simp add: zb_request_def Let_def)
      have 1: "extends download_step d w ?w1" using s by (simp add: extends_request)
      have "snd (get_attachment_file s zb attachment dest_path w) =
              (if status_code r = 200 then save_stream dest_path r ?w1 else ?w1)"
        using None True ok by (simp add: get_attachment_file_def)
      moreover have "extends download_step d ?w1 (save_stream dest_path r ?w1)"
        by (simp add: save_stream_def extends_write_file)
      ultimately show ?thesis using 1 by (auto intro: extends_trans)
    next
      case (fail e rp)
      let ?w1 = "emit (Request (zb_request zb ?path None True) rp) w"
      have s: "stream (zb_request zb ?path None True)" by (simp add: zb_request_def Let_def)
      have 1: "extends download_step d w ?w1" using s by (simp add: extends_request)
      have "snd (get_attachment_file s zb attachment dest_path w) = ?w1"
        using None True fail by (cases e) (simp_all add: get_attachment_file_def)
      then show ?thesis using 1 by simp
    qed
  qed
next
  case (Some h)
  let ?href = "absolute_href h"
  let ?rq = "download_request zb ?href"
  let ?w0 = "print (Downloading ?href) w"
  obtain rp where rp: "http s (trace ?w0) ?rq = rp" by simp
  let ?w1 = "emit (Request ?rq rp) ?w0"
  have "stream ?rq" by (simp add: download_request_def)
  then have "extends download_step d ?w0 ?w1" by (simp add: extends_request)
  then have 1: "extends download_step d w ?w1"
    by (rule extends_trans [OF extends_print, rotated]) simp
  have "snd (get_attachment_file s zb attachment dest_path w) = ?w1
      \<or> (\<exists>e. snd (get_attachment_file s zb attachment dest_path w) = print (FailedDownload ?href e) ?w1)
      \<or> (\<exists>r. snd (get_attachment_file s zb attachment dest_path w) = save_stream dest_path r ?w1)"
    using Some rp
    by (cases rp)
       (auto simp: get_attachment_file_def session_get_def Let_def split: sum.splits)
  moreover have "\<And>e. extends download_step d ?w1 (print (FailedDownload ?href e) ?w1)"
    by (simp add: extends_print)
  moreover have "\<And>r. extends download_step d ?w1 (save_stream dest_path r ?w1)"
    by (simp add: save_stream_def extends_write_file)
  ultimately show ?thesis
    using 1 by (auto intro: extends_trans)
qed

lemma report_download_extends:
  "extends download_step d w (snd (report_download s zb child att_key att_dir w))"
proof -
  let ?cdata = "get_or (data child) empty_data"
  let ?dest = "path_join att_dir (slugify_name (str_or (filename ?cdata) (str_or (title ?cdata) att_key)))"
  let ?dest2 = "path_join att_dir att_key"
  obtain r1 w1 where g1: "get_attachment_file s zb child ?dest w = (r1, w1)"
    by (cases "get_attachment_file s zb child ?dest w")
  obtain r2 w2 where g2: "get_attachment_file s zb child ?dest2 w1 = (r2, w2)"
    by (cases "get_attachment_file s zb child ?dest2 w1")
  have e1: "extends download_step d w w1"
    using get_attachment_file_extends [of d w s zb child ?dest] g1 by simp
  have e2: "extends download_step d w1 w2"
    using get_attachment_file_extends [of d w1 s zb child ?dest2] g2 by simp
  have e12: "extends download_step d w w2" using e1 e2 by (rule extends_trans)
  have "snd (report_download s zb child att_key att_dir w) = w1
      \<or> (\<exists>m. m \<noteq> BackupComplete \<and> snd (report_download s zb child att_key att_dir w) = print m w1)
      \<or> snd (report_download s zb child att_key att_dir w) = w2
      \<or> (\<exists>m. m \<noteq> BackupComplete \<and> snd (report_download s zb child att_key att_dir w) = print m w2)"
    using g1 g2 by (auto simp: report_download_def Let_def split: sum.splits)
  moreover have "\<And>m v. m \<noteq> BackupComplete \<Longrightarrow> extends download_step d v (print m v)"
    by (simp add: extends_print)
  ultimately show ?thesis
    using e1 e12 by (auto intro: extends_trans)
qed

lemma backup_child_extends:
  "extends item_event (sleep_between_requests zb) w (snd (backup_child s zb child w))"
proof (cases "lower (get_or (itemType (get_or (data child) empty_data)) []) = ''attachment''")
  case False
  then show ?thesis by (simp add: backup_child_def Let_def)
next
  case True
  show ?thesis
  proof (cases "key child")
    case None
    with True show ?thesis by (simp add: backup_child_def Let_def)
  next
    case (Some k)
    let ?d = "sleep_between_requests zb"
    let ?dir = "path_join (attachments_dir zb) k"
    let ?w2 = "write_file (path_join ?dir (k @ ''.json'')) (JsonItem child) (ensure_dir ?dir w)"
    obtain r3 w3 where rd: "report_download s zb child k ?dir ?w2 = (r3, w3)"
      by (cases "report_download s zb child k ?dir ?w2")
    have e2: "extends item_event ?d w ?w2"
      by (rule extends_trans [OF extends_ensure_dir extends_write_file]) simp_all
    have "extends download_step ?d ?w2 w3"
      using report_download_extends [of ?d ?w2 s zb child k ?dir] rd by simp
    then have e3: "extends item_event ?d ?w2 w3"
      by (rule extends_mono) (simp add: download_step_item)
    have "snd (backup_child s zb child w) = w3
        \<or> snd (backup_child s zb child w) = fetch_annotations s zb k w3
        \<or> snd (backup_child s zb child w) = fetch_annotations s zb k ?w2"
      using True Some rd by (auto simp: backup_child_def Let_def split: sum.splits)
    then show ?thesis
      using e2 e3 fetch_annotations_extends [of zb _ s k]
      by (auto intro: extends_trans)
  qed
qed

lemma backup_children_extends:
  "extends item_event (sleep_between_requests zb) w (snd (backup_children s zb children w))"
proof (induction children arbitrary: w)
  case Nil
  then show ?case by simp
next
  case (Cons child children)
  obtain r1 w1 where c: "backup_child s zb child w = (r1, w1)"
    by (cases "backup_child s zb child w")
  have e1: "extends item_event (sleep_between_requests zb) w w1"
    using backup_child_extends [of zb w s child] c by simp
  show ?case
  proof (cases r1)
    case (Inl e)
    then show ?thesis using c e1 by simp
  next
    case (Inr u)
    then show ?thesis
      using c e1 Cons [of w1] by (auto intro: extends_trans)
  qed
qed

lemma backup_item_shape:
  fixes s zb idx n item w
  defines "k \<equiv> str_opt (key item)"
  defines "w2 \<equiv> write_file (path_join (items_dir zb) (k @ ''.json'')) (JsonItem item)
                  (print (BackingUp idx n (key item)
                            (get_or (title (get_or (data item) empty_data)) (''item-'' @ k))) w)"
  obtains (children) r x where
      "sleep_length (sleep_between_requests zb) = Some x"
      "backup_item s zb idx n item w =
         backup_children s zb (batch_of r)
           (emit (Sleep x) (emit (Request (children_request zb k) (Response r)) w2))"
  | (refused) r e where
      "sleep_length (sleep_between_requests zb) = None"
      "backup_item s zb idx n item w =
         (Inl e, emit (Request (children_request zb k) (Response r)) w2)"
  | (fail) e rp where
      "\<not> owes_sleep (Request (children_request zb k) rp)"
      "backup_item s zb idx n item w = (Inl e, emit (Request (children_request zb k) rp) w2)"
proof (cases rule: get_item_children_cases [where s = s and zb = zb and k = k and w = w2])
  case (ok r)
  show ?thesis
  proof (cases rule: time_sleep_cases [where d = "sleep_between_requests zb"])
    case (accepted x)
    then show ?thesis
      using ok children [of x r] by (simp add: backup_item_def Let_def k_def w2_def)
  next
    case (refused e)
    then show ?thesis
      using ok that(2) [of e r] by (simp add: backup_item_def Let_def k_def w2_def)
  qed
next
  case (fail e rp)
  then show ?thesis
    using that(3) [of rp e] by (simp add: backup_item_def Let_def k_def w2_def)
qed

lemma backup_item_extends:
  "extends item_event (sleep_between_requests zb) w (snd (backup_item s zb idx n item w))"
proof -
  let ?d = "sleep_between_requests zb"
  let ?k = "str_opt (key item)"
  let ?ttl = "get_or (title (get_or (data item) empty_data)) (''item-'' @ ?k)"
  let ?w2 = "write_file (path_join (items_dir zb) (?k @ ''.json'')) (JsonItem item)
               (print (BackingUp idx n (key item) ?ttl) w)"
  have e2: "extends item_event ?d w ?w2"
    by (rule extends_trans [OF extends_print extends_write_file]) simp_all
  show ?thesis
  proof (cases rule: backup_item_shape [where s = s and zb = zb and idx = idx and n = n
        and item = item and w = w])
    case (children r x)
    let ?w4 = "emit (Sleep x) (emit (Request (children_request zb ?k) (Response r)) ?w2)"
    have "extends item_event ?d ?w2 ?w4"
      using children(1) by (rule extends_request_sleep) simp_all
    then show ?thesis
      using e2 children(2) backup_children_extends [of zb ?w4 s "batch_of r"]
      by (auto intro: extends_trans)
  next
    case (refused r e)
    have "extends item_event ?d ?w2 (emit (Request (children_request zb ?k) (Response r)) ?w2)"
      using refused(1) by (rule extends_refused) simp
    then show ?thesis
      using e2 refused(2) by (auto intro: extends_trans)
  next
    case (fail e rp)
    have "extends item_event ?d ?w2 (emit (Request (children_request zb ?k) rp) ?w2)"
      using fail(1) by (simp add: extends_request)
    then show ?thesis
      using e2 fail(2) by (auto intro: extends_trans)
  qed
qed

lemma backup_item_first:
  "\<exists>m p c rq rp es. trace (snd (backup_item s zb idx n item w))
                      = trace w @ Print m # Write p c # Request rq rp # es"
proof (cases rule: backup_item_shape [where s = s and zb = zb and idx = idx and n = n
      and item = item and w = w])
  case (children r x)
  let ?k = "str_opt (key item)"
  let ?w2 = "write_file (path_join (items_dir zb) (?k @ ''.json'')) (JsonItem item)
               (print (BackingUp idx n (key item)
                         (get_or (title (get_or (data item) empty_data)) (''item-'' @ ?k))) w)"
  let ?w4 = "emit (Sleep x) (emit (Request (children_request zb ?k) (Response r)) ?w2)"
  from backup_children_extends [of zb ?w4 s "batch_of r"] obtain es where
    "trace (snd (backup_children s zb (batch_of r) ?w4)) = trace ?w4 @ es"
    unfolding extends_def by blast
  then show ?thesis
    using children(2) by simp
next
  case (refused r e)
  then show ?thesis by simp
next
  case (fail e rp)
  then show ?thesis by simp
qed

lemma backup_items_extends:
  "extends item_event (sleep_between_requests zb) w (snd (backup_items s zb idx n items w))"
proof (induction items arbitrary: w idx)
  case Nil
  then show ?case by simp
next
  case (Cons item items)
  obtain r1 w1 where c: "backup_item s zb idx n item w = (r1, w1)"
    by (cases "backup_item s zb idx n item w")
  have e1: "extends item_event (sleep_between_requests zb) w w1"
    using backup_item_extends [of zb w s idx n item] c by simp
  show ?case
  proof (cases r1)
    case (Inl e)
    then show ?thesis using c e1 by simp
  next
    case (Inr u)
    then show ?thesis
      using c e1 Cons [of w1 "Suc idx"] by (auto intro: extends_trans)
  qed
qed

lemma backup_items_first:
  assumes "items \<noteq> []"
  shows "\<exists>m p c rq rp es. trace (snd (backup_items s zb idx n items w))
                           = trace w @ Print m # Write p c # Request rq rp # es"
proof -
  from assms obtain item rest where items: "items = item # rest"
    by (cases items) auto
  obtain r1 w1 where c: "backup_item s zb idx n item w = (r1, w1)"
    by (cases "backup_item s zb idx n item w")
  from backup_item_first [of s zb idx n item w] c obtain m p c' rq rp es where
    1: "trace w1 = trace w @ Print m # Write p c' # Request rq rp # es"
    by auto
  show ?thesis
  proof (cases r1)
    case (Inl e)
    then show ?thesis using items c 1 by simp
  next
    case (Inr u)
    from backup_items_extends [of zb w1 s "Suc idx" n rest] obtain es' where
      "trace (snd (backup_items s zb (Suc idx) n rest w1)) = trace w1 @ es'"
      unfolding extends_def by blast
    then show ?thesis using items c 1 Inr by simp
  qed
qed

lemma page_request_start [simp]: "map_of (params (page_request zb start)) ''start'' \<noteq> None"
  by (simp add: page_request_def zb_request_def page_params_def Let_def)

lemma page_request_stream [simp]: "\<not> stream (page_request zb start)"
  by (simp add: page_request_def zb_request_def Let_def)

lemma empty_page_simps [simp]:
  "\<not> empty_page (Sleep x)" "\<not> empty_page (Print m)" "\<not> empty_page (Mkdir p)"
  "\<not> empty_page (Write p c)" "\<not> empty_page (Run a r)" "\<not> empty_page (Request rq NoResponse)"
  by (simp_all add: empty_page_def)

lemma empty_page_request:
  "empty_page (Request (page_request zb st) (Response r)) \<longleftrightarrow> page_ok r \<and> batch_of r = []"
  by (simp add: empty_page_def)

lemma last_only_single [simp]: "last_only [e]"
  by simp

lemma list_all_items_loop_extends:
  assumes run: "list_all_items_loop s zb items start w = Some y"
  shows "extends fetch_event (sleep_between_requests zb) w (snd y)
       \<and> last_only (events_since w (snd y))"
proof (rule list_all_items_loop.raw_induct
    [where P = "\<lambda>s zb items start w y.
                  extends fetch_event (sleep_between_requests zb) w (snd y)
                  \<and> last_only (events_since w (snd y))", OF _ run], goal_cases)
  case (1 loop s zb items start w y)
  let ?d = "sleep_between_requests zb"
  show ?case
  proof (cases rule: zb_get_cases [where s = s and zb = zb and path = "''/items/top''"
        and ps = "Some (page_params zb start)" and strm = False and w = w])
    case (fail e rp)
    then have "y = (Inl e, emit (Request (page_request zb start) rp) w)"
      using 1(2) by (simp add: page_request_def)
    moreover have "\<not> owes_sleep (Request (page_request zb start) rp)"
      using fail(2) by (auto simp: owes_sleep_def split: reply.splits)
    ultimately show ?thesis by (simp add: extends_request events_since_def)
  next
    case (ok r)
    let ?w1 = "emit (Request (page_request zb start) (Response r)) w"
    have g: "zb_get s zb ''/items/top'' (Some (page_params zb start)) False w = (Inr r, ?w1)"
      using ok by (simp add: page_request_def)
    show ?thesis
    proof (cases "json_body r")
      case None
      then have "y = (Inl JSONDecodeError, ?w1)"
        using 1(2) g by (simp add: resp_json_def)
      moreover have "\<not> owes_sleep (Request (page_request zb start) (Response r))"
        using None by (simp add: owes_sleep_def page_ok_def)
      ultimately show ?thesis by (simp add: extends_request events_since_def)
    next
      case (Some b)
      show ?thesis
      proof (cases "b = []")
        case True
        then have "y = (Inr items, ?w1)"
          using 1(2) g Some by (simp add: resp_json_def)
        moreover have "\<not> owes_sleep (Request (page_request zb start) (Response r))"
          using Some True by (simp add: owes_sleep_def batch_of_def)
        ultimately show ?thesis by (simp add: extends_request events_since_def)
      next
        case False
        then have ne: "\<not> empty_page (Request (page_request zb start) (Response r))"
          using Some by (simp add: empty_page_def batch_of_def)
        let ?w2 = "print (Fetched (length b) start) ?w1"
        show ?thesis
        proof (cases rule: time_sleep_cases [where d = ?d])
          case (refused e)
          then have y: "y = (Inl e, ?w2)"
            using 1(2) g Some False by (simp add: resp_json_def)
          have "extends fetch_event ?d w ?w1"
            using refused(1) by (rule extends_refused) simp
          moreover have "extends fetch_event ?d ?w1 ?w2"
            by (simp add: extends_print)
          ultimately have "extends fetch_event ?d w ?w2"
            by (rule extends_trans)
          then show ?thesis
            using y ne by (simp add: events_since_def)
        next
          case (accepted x)
          let ?w3 = "emit (Sleep x) ?w2"
          have e3: "extends fetch_event ?d w ?w3"
            using accepted(1) by (rule extends_page) simp_all
          show ?thesis
          proof (cases "int (length b) < per_page zb")
            case True
            then have "y = (Inr (items @ b), ?w3)"
              using 1(2) g Some False accepted(2) by (simp add: resp_json_def)
            then show ?thesis
              using e3 ne by (simp add: events_since_def)
          next
            case nshort: False
            then have "loop s zb (items @ b) (start + int (length b)) ?w3 = Some y"
              using 1(2) g Some False accepted(2) by (simp add: resp_json_def)
            from 1(1) [OF this] have ih: "extends fetch_event ?d ?w3 (snd y)"
              "last_only (events_since ?w3 (snd y))"
              by simp_all
            from ih(1) obtain es where es: "trace (snd y) = trace ?w3 @ es"
              unfolding extends_def by blast
            then have "events_since ?w3 (snd y) = es"
              "events_since w (snd y) = Request (page_request zb start) (Response r)
                 # Print (Fetched (length b) start) # Sleep x # es"
              by (simp_all add: events_since_def)
            then have "last_only (events_since w (snd y))"
              using ih(2) ne by simp
            moreover have "extends fetch_event ?d w (snd y)"
              using e3 ih(1) by (rule extends_trans)
            ultimately show ?thesis by simp
          qed
        qed
      qed
    qed
  qed
qed

lemma quiet_simps [simp]:
  "quiet e \<Longrightarrow> \<not> owes_sleep e" "quiet e \<Longrightarrow> \<not> empty_page e" "quiet e \<Longrightarrow> \<not> is_request e"
  by (cases e; simp add: owes_sleep_def empty_page_def)+

lemma paced_quiet: "list_all quiet es \<Longrightarrow> paced d es"
  by (rule paced_no_owe) (simp add: list_all_iff)

lemma unslept_append_quiet: "unslept xs \<Longrightarrow> list_all quiet ys \<Longrightarrow> unslept (xs @ ys)"
proof (induction xs rule: unslept.induct)
  case 1
  then show ?case
  proof (induction ys)
    case Nil
    then show ?case by simp
  next
    case (Cons e ys)
    then show ?case by (cases e) simp_all
  qed
qed simp_all

lemma settled_quiet: "list_all quiet es \<Longrightarrow> settled es"
  by (induction es) simp_all

lemma settled_no_empty: "list_all (\<lambda>e. \<not> empty_page e) es \<Longrightarrow> settled es"
  by (induction es) simp_all

lemma settled_append_quiet: "settled xs \<Longrightarrow> list_all quiet ys \<Longrightarrow> settled (xs @ ys)"
  by (induction xs) (simp_all add: settled_quiet unslept_append_quiet)

lemma settled_append_last:
  "last_only xs \<Longrightarrow> unslept ys \<Longrightarrow> settled ys \<Longrightarrow> settled (xs @ ys)"
  by (induction xs) auto

lemma settled_nth:
  "settled es \<Longrightarrow> i < length es \<Longrightarrow> empty_page (es ! i) \<Longrightarrow> unslept (drop (Suc i) es)"
proof (induction es arbitrary: i)
  case Nil
  then show ?case by simp
next
  case (Cons e es)
  then show ?case by (cases i) simp_all
qed

lemma stage_tail_quiet: "list_all quiet (stage_tail s zb tr)"
  by (auto simp: stage_tail_def Let_def split: proc_result.splits)

lemma ignore_events_quiet [simp]: "list_all quiet (ignore_events zb w)"
  by (simp add: ignore_events_def)

lemma maybe_init_and_commit_trace:
  "\<exists>es. trace (snd (maybe_init_and_commit s zb w)) = trace w @ es \<and> list_all quiet es"
proof -
  have st: "\<And>v. \<exists>es. trace (snd (stage_and_commit s zb v)) = trace v @ es \<and> list_all quiet es"
  proof -
    fix v
    show "\<exists>es. trace (snd (stage_and_commit s zb v)) = trace v @ es \<and> list_all quiet es"
      using stage_and_commit_shape [of s zb v]
      by (intro exI [of _ "ignore_events zb v
             @ Run (git_add zb) (subprocess s (trace v @ ignore_events zb v) (git_add zb))
             # stage_tail s zb (trace v @ ignore_events zb v)"])
         (simp add: stage_tail_quiet)
  qed
  let ?r0 = "subprocess s (trace w) (git_rev_parse zb)"
  let ?w1 = "emit (Run (git_rev_parse zb) ?r0) w"
  let ?w2 = "print InitializingRepo ?w1"
  let ?ri = "subprocess s (trace ?w2) (git_init zb)"
  let ?w3 = "emit (Run (git_init zb) ?ri) ?w2"
  have "snd (maybe_init_and_commit s zb w) = ?w1
      \<or> snd (maybe_init_and_commit s zb w) = snd (stage_and_commit s zb ?w1)
      \<or> snd (maybe_init_and_commit s zb w) = snd (stage_and_commit s zb ?w3)
      \<or> (\<exists>e. snd (maybe_init_and_commit s zb w) = print (FailedInit e) ?w3)"
    by (auto simp: maybe_init_and_commit_shape split: proc_result.splits)
  moreover have "\<exists>es. trace ?w1 = trace w @ es \<and> list_all quiet es"
    by (intro exI [of _ "[Run (git_rev_parse zb) ?r0]"]) simp
  moreover have "\<exists>es. trace (snd (stage_and_commit s zb ?w1)) = trace w @ es \<and> list_all quiet es"
  proof -
    from st [of ?w1] obtain es where "trace (snd (stage_and_commit s zb ?w1)) = trace ?w1 @ es"
      "list_all quiet es" by blast
    then show ?thesis
      by (intro exI [of _ "Run (git_rev_parse zb) ?r0 # es"]) simp
  qed
  moreover have "\<exists>es. trace (snd (stage_and_commit s zb ?w3)) = trace w @ es \<and> list_all quiet es"
  proof -
    from st [of ?w3] obtain es where "trace (snd (stage_and_commit s zb ?w3)) = trace ?w3 @ es"
      "list_all quiet es" by blast
    then show ?thesis
      by (intro exI [of _ "[Run (git_rev_parse zb) ?r0, Print InitializingRepo, Run (git_init zb) ?ri] @ es"]) simp
  qed
  moreover have "\<And>e. \<exists>es. trace (print (FailedInit e) ?w3) = trace w @ es \<and> list_all quiet es"
  proof -
    fix e
    show "\<exists>es. trace (print (FailedInit e) ?w3) = trace w @ es \<and> list_all quiet es"
      by (intro exI [of _ "[Run (git_rev_parse zb) ?r0, Print InitializingRepo, Run (git_init zb) ?ri, Print (FailedInit e)]"]) simp
  qed
  ultimately show ?thesis by metis
qed

lemma backup_run_cases:
  assumes run: "ZoteroBackup_backup s zb w = Some (r, w')"
  obtains (raised) e where "r = Inl e"
      "extends fetch_event (sleep_between_requests zb) w w'" "settled (events_since w w')"
  | (processed) w3 where
      "extends fetch_event (sleep_between_requests zb) w w3" "settled (events_since w w3)"
      "(r, w') = (if commit_repo zb then maybe_init_and_commit s zb (print BackupComplete w3)
                  else (Inr (), print BackupComplete w3))"
proof -
  let ?d = "sleep_between_requests zb"
  let ?w0 = "print StartingBackup w"
  have e0: "extends fetch_event ?d w ?w0" by (simp add: extends_print)
  from run obtain r1 w1 where l: "list_all_items s zb ?w0 = Some (r1, w1)"
    by (cases "list_all_items s zb ?w0") (auto simp: ZoteroBackup_backup_def)
  then have e1: "extends fetch_event ?d ?w0 w1" and l1: "last_only (events_since ?w0 w1)"
    using list_all_items_loop_extends [of s zb "[]" 0 ?w0 "(r1, w1)"]
    by (simp_all add: list_all_items_def)
  from e1 obtain es1 where es1: "trace w1 = trace ?w0 @ es1"
    unfolding extends_def by blast
  then have lo: "last_only es1" using l1 by (simp add: events_since_def)
  have e01: "extends fetch_event ?d w w1" using e0 e1 by (rule extends_trans)
  show ?thesis
  proof (cases r1)
    case (Inl e)
    then have w': "w' = w1" "r = Inl e" using run l by (simp_all add: ZoteroBackup_backup_def)
    have "events_since w w1 = Print StartingBackup # es1"
      using es1 by (simp add: events_since_def)
    moreover have "settled es1"
      using settled_append_last [OF lo, of "[]"] by simp
    ultimately have "settled (events_since w w')" using w' by simp
    then show ?thesis using raised [of e] w' e01 by simp
  next
    case (Inr items)
    let ?meta = "Write (path_join (meta_dir zb) ''backup_meta.json'')
                   (JsonMeta (isoformat (utcnow s (trace w1)) @ ''Z'') (length items))"
    let ?w2 = "write_file (path_join (meta_dir zb) ''backup_meta.json'')
                 (JsonMeta (isoformat (utcnow s (trace w1)) @ ''Z'') (length items)) w1"
    obtain r3 w3 where b: "backup_items s zb 1 (length items) items ?w2 = (r3, w3)"
      by (cases "backup_items s zb 1 (length items) items ?w2")
    have e23: "extends item_event ?d ?w2 w3"
      using backup_items_extends [of zb ?w2 s 1 "length items" items] b by simp
    then obtain es2 where es2: "trace w3 = trace ?w2 @ es2" "list_all item_event es2"
      unfolding extends_def by blast
    have u2: "unslept es2"
    proof (cases "items = []")
      case True
      then have "w3 = ?w2" using b by simp
      then show ?thesis using es2(1) by simp
    next
      case False
      from backup_items_first [OF False, of s zb 1 "length items" ?w2] b
      obtain m p c rq rp es where "trace w3 = trace ?w2 @ Print m # Write p c # Request rq rp # es"
        by auto
      then have "es2 = Print m # Write p c # Request rq rp # es"
        using es2(1) by simp
      then show ?thesis by simp
    qed
    have "list_all (\<lambda>e. \<not> empty_page e) es2"
      using es2(2) by (simp add: list_all_iff item_event_def)
    then have "settled (?meta # es2)" "unslept (?meta # es2)"
      using u2 by (simp_all add: settled_no_empty)
    then have "settled (es1 @ ?meta # es2)"
      using lo by (simp add: settled_append_last)
    moreover have "events_since w w3 = Print StartingBackup # es1 @ ?meta # es2"
      using es1 es2(1) by (simp add: events_since_def)
    ultimately have s3: "settled (events_since w w3)" by simp
    have e3: "extends fetch_event ?d w w3"
    proof -
      have "extends fetch_event ?d w1 ?w2" by (simp add: extends_write_file)
      moreover have "extends fetch_event ?d ?w2 w3"
        using e23 by (rule extends_mono) (rule item_event_fetch)
      ultimately show ?thesis using e01 by (blast intro: extends_trans)
    qed
    show ?thesis
    proof (cases r3)
      case e: (Inl e)
      then have "w' = w3" "r = Inl e"
        using run l Inr b by (simp_all add: ZoteroBackup_backup_def Let_def)
      then show ?thesis using raised [of e] e3 s3 by simp
    next
      case u: (Inr u)
      then have "(r, w') = (if commit_repo zb then maybe_init_and_commit s zb (print BackupComplete w3)
                  else (Inr (), print BackupComplete w3))"
        using run l Inr b by (auto simp: ZoteroBackup_backup_def Let_def split: if_splits)
      then show ?thesis using processed [of w3] e3 s3 by simp
    qed
  qed
qed

lemma backup_run_trace:
  assumes run: "ZoteroBackup_backup s zb w = Some (r, w')"
  shows "\<exists>es. trace w' = trace w @ es \<and> paced_by (sleep_between_requests zb) es \<and> settled es"
  using run
proof (cases rule: backup_run_cases)
  case (raised e)
  from raised(2) obtain es where "trace w' = trace w @ es" "paced_by (sleep_between_requests zb) es"
    unfolding extends_def by blast
  then show ?thesis using raised(3) by (auto simp: events_since_def)
next
  case (processed w3)
  let ?d = "sleep_between_requests zb"
  let ?w4 = "print BackupComplete w3"
  from processed(1) obtain es3 where 3: "trace w3 = trace w @ es3" "paced_by ?d es3"
    unfolding extends_def by blast
  then have s3: "settled es3" using processed(2) by (simp add: events_since_def)
  have tail: "\<exists>es. trace w' = trace w3 @ es \<and> list_all quiet es"
  proof (cases "commit_repo zb")
    case True
    from maybe_init_and_commit_trace [of s zb ?w4] obtain es5 where
      "trace (snd (maybe_init_and_commit s zb ?w4)) = trace ?w4 @ es5" "list_all quiet es5"
      by blast
    moreover have "w' = snd (maybe_init_and_commit s zb ?w4)"
      using processed(3) True by (metis snd_conv)
    ultimately show ?thesis
      by (intro exI [of _ "Print BackupComplete # es5"]) simp
  next
    case False
    then have "w' = ?w4" using processed(3) by simp
    then show ?thesis by (intro exI [of _ "[Print BackupComplete]"]) simp
  qed
  then obtain es where es: "trace w' = trace w3 @ es" "list_all quiet es" by blast
  have "paced_by ?d (es3 @ es)"
    using 3(2) es(2) by (intro paced_by_append) (simp_all add: paced_by_no_owe list_all_iff)
  moreover have "settled (es3 @ es)"
    using s3 es(2) by (rule settled_append_quiet)
  ultimately show ?thesis
    using 3(1) es(1) by (intro exI [of _ "es3 @ es"]) simp
qed

section \<open>Sleeping between requests\<close>

lemma paced_nth:
  "paced d es \<Longrightarrow> i < length es \<Longrightarrow> owes_sleep (es ! i) \<Longrightarrow> slept d (drop (Suc i) es)"
proof (induction es arbitrary: i)
  case Nil
  then show ?case by simp
next
  case (Cons e es)
  then show ?case by (cases i) simp_all
qed

lemma owes_sleep_page:
  "owes_sleep (Request (page_request zb st) (Response rs)) \<longleftrightarrow> page_ok rs \<and> batch_of rs \<noteq> []"
  by (simp add: owes_sleep_def)

lemma owes_sleep_children:
  "owes_sleep (Request (children_request zb k) (Response rs)) \<longleftrightarrow> page_ok rs"
  by (simp add: owes_sleep_def children_request_def zb_request_def API_VERSION_def Let_def)

text \<open>
  C8, as the code has it. Take a backup run that returns or raises, with a sleep setting that
  \<open>time.sleep\<close> accepts: a finite number \<open>x\<close> of seconds, not negative and below \<open>max_sleep\<close>.
  Every request for a page of top-level items that returned a batch that is not empty, and
  every request for the children of an item that returned its list, is followed by a sleep of
  \<open>x\<close> seconds before the next request, whatever the size of the list. After a request for a
  page of top-level items that returned an empty batch, where the loop over the pages ends,
  there is no sleep before the next request.
\<close>

theorem backup_run_sleeps:
  assumes sleep: "sleep_between_requests zb = Finite x" "0 \<le> x" "x < max_sleep"
    and run: "ZoteroBackup_backup s zb w = Some (r, w')"
  shows "\<forall>i < length (events_since w w').
           (((\<exists>st rs. events_since w w' ! i = Request (page_request zb st) (Response rs)
                     \<and> page_ok rs \<and> batch_of rs \<noteq> [])
             \<or> (\<exists>k rs. events_since w w' ! i = Request (children_request zb k) (Response rs)
                     \<and> page_ok rs))
            \<longrightarrow> slept x (drop (Suc i) (events_since w w')))
         \<and> ((\<exists>st rs. events_since w w' ! i = Request (page_request zb st) (Response rs)
                     \<and> page_ok rs \<and> batch_of rs = [])
            \<longrightarrow> unslept (drop (Suc i) (events_since w w')))"
proof -
  have d: "sleep_length (sleep_between_requests zb) = Some x"
    using sleep by (simp add: sleep_length_Some)
  from backup_run_trace [OF run] obtain es where
    es: "trace w' = trace w @ es" "paced_by (sleep_between_requests zb) es" "settled es"
    by blast
  then have ev: "events_since w w' = es" by simp
  have p: "paced x es" using es(2) d by (simp add: paced_by_accepted)
  show ?thesis
    unfolding ev
    using p es(3)
    by (auto intro: paced_nth settled_nth simp: owes_sleep_page owes_sleep_children empty_page_request)
qed

lemmas run_eval =
  zb_get_def session_get_def stub_sys_def raise_for_status_def resp_json_def
  ok_response_def time_sleep_def max_sleep_def backup0_def world0_def print_def emit_def
  write_file_def page_request_def children_request_def get_item_children_def backup_item_def
  first_item_def item_with_def empty_data_def str_opt_def get_or_def Let_def

lemma one_per_page_pages:
  "list_all_items (stub_sys [ok_response [first_item], ok_response [], ok_response []]) one_per_page
       (print StartingBackup world0)
     = Some (Inr [first_item],
         \<lparr>trace = [Print StartingBackup,
                    Request (page_request one_per_page 0) (Response (ok_response [first_item])),
                    Print (Fetched 1 0), Sleep (1 / 2),
                    Request (page_request one_per_page 1) (Response (ok_response []))],
           files = Map.empty\<rparr>)"
  unfolding list_all_items_def
  by (subst list_all_items_loop.simps, simp add: run_eval one_per_page_def,
      subst list_all_items_loop.simps, simp add: run_eval one_per_page_def)

lemma one_per_page_run:
  "\<exists>W. ZoteroBackup_backup (stub_sys [ok_response [first_item], ok_response [], ok_response []])
          one_per_page world0
          = Some (Inr (), W)
      \<and> trace W =
          [Print StartingBackup,
           Request (page_request one_per_page 0) (Response (ok_response [first_item])),
           Print (Fetched 1 0), Sleep (1 / 2),
           Request (page_request one_per_page 1) (Response (ok_response [])),
           Write (path_join (meta_dir one_per_page) ''backup_meta.json'')
             (JsonMeta (isoformat epoch @ ''Z'') 1),
           Print (BackingUp 1 1 (Some ''I1'') ''First''),
           Write (path_join (items_dir one_per_page) ''I1.json'') (JsonItem first_item),
           Request (children_request one_per_page ''I1'') (Response (ok_response [])),
           Sleep (1 / 2), Print BackupComplete]"
  unfolding ZoteroBackup_backup_def one_per_page_pages
  by (simp add: run_eval one_per_page_def)

theorem backup_run_sleeps_witness:
  "map_option (\<lambda>p. slept (1 / 2) (drop 2 (events_since world0 (snd p)))
                   \<and> unslept (drop 5 (events_since world0 (snd p)))
                   \<and> slept (1 / 2) (drop 9 (events_since world0 (snd p))))
     (ZoteroBackup_backup (stub_sys [ok_response [first_item], ok_response [], ok_response []])
        one_per_page world0)
   = Some True"
proof -
  from one_per_page_run obtain W where
    run: "ZoteroBackup_backup (stub_sys [ok_response [first_item], ok_response [], ok_response []])
            one_per_page world0
            = Some (Inr (), W)"
    and tr: "trace W =
          [Print StartingBackup,
           Request (page_request one_per_page 0) (Response (ok_response [first_item])),
           Print (Fetched 1 0), Sleep (1 / 2),
           Request (page_request one_per_page 1) (Response (ok_response [])),
           Write (path_join (meta_dir one_per_page) ''backup_meta.json'')
             (JsonMeta (isoformat epoch @ ''Z'') 1),
           Print (BackingUp 1 1 (Some ''I1'') ''First''),
           Write (path_join (items_dir one_per_page) ''I1.json'') (JsonItem first_item),
           Request (children_request one_per_page ''I1'') (Response (ok_response [])),
           Sleep (1 / 2), Print BackupComplete]"
    by blast
  have d: "sleep_between_requests one_per_page = Finite (1 / 2)" "(0::real) \<le> 1 / 2"
    "1 / 2 < max_sleep"
    by (simp_all add: one_per_page_def backup0_def max_sleep_def)
  have ev: "events_since world0 W = trace W"
    by (simp add: events_since_def world0_def)
  have ok: "page_ok (ok_response [first_item])" "batch_of (ok_response [first_item]) \<noteq> []"
    "page_ok (ok_response [])" "batch_of (ok_response []) = []"
    by (simp_all add: page_ok_def batch_of_def ok_response_def)
  note th = backup_run_sleeps [OF d run, unfolded ev]
  have "slept (1 / 2) (drop 2 (trace W))"
    using th [rule_format, of 1] ok by (auto simp: tr)
  moreover have "unslept (drop 5 (trace W))"
    using th [rule_format, of 4] ok by (auto simp: tr)
  moreover have "slept (1 / 2) (drop 9 (trace W))"
    using th [rule_format, of 8] ok by (auto simp: tr)
  ultimately show ?thesis
    using run ev by simp
qed

text \<open>
  C8 as the specification states it fails: with one item in the library and \<open>per_page = 1\<close>
  the second page is empty, the loop ends at once, and the request for the children of the
  item follows that page request with no sleep between them.
\<close>

theorem backup_run_sleeps_counterexample:
  "map_option (\<lambda>p. trace (snd p))
     (ZoteroBackup_backup (stub_sys [ok_response [first_item], ok_response [], ok_response []])
        one_per_page world0)
   = Some [Print StartingBackup,
           Request (page_request one_per_page 0) (Response (ok_response [first_item])),
           Print (Fetched 1 0), Sleep (1 / 2),
           Request (page_request one_per_page 1) (Response (ok_response [])),
           Write (path_join (meta_dir one_per_page) ''backup_meta.json'')
             (JsonMeta (isoformat epoch @ ''Z'') 1),
           Print (BackingUp 1 1 (Some ''I1'') ''First''),
           Write (path_join (items_dir one_per_page) ''I1.json'') (JsonItem first_item),
           Request (children_request one_per_page ''I1'') (Response (ok_response [])),
           Sleep (1 / 2), Print BackupComplete]
   \<and> \<not> slept (1 / 2)
         [Write (path_join (meta_dir one_per_page) ''backup_meta.json'')
             (JsonMeta (isoformat epoch @ ''Z'') 1),
          Print (BackingUp 1 1 (Some ''I1'') ''First''),
          Write (path_join (items_dir one_per_page) ''I1.json'') (JsonItem first_item),
          Request (children_request one_per_page ''I1'') (Response (ok_response [])),
          Sleep (1 / 2), Print BackupComplete]"
  unfolding ZoteroBackup_backup_def one_per_page_pages
  by (simp add: run_eval one_per_page_def)

section \<open>The snapshot of an attachment comes before its download\<close>








end
